theory Spec2Isabelle
  imports Main "HOL-Library.Sublist"
begin

section \<open>Values shared by the dispatcher and the game worker\<close>

text \<open>
  The exceptions that the control flow of \<^verbatim>\<open>__init__.py\<close> distinguishes. \<open>HTTPError\<close>
  carries \<^verbatim>\<open>exception.response.status_code\<close>. The four connectivity classes are the ones
  named in the \<^verbatim>\<open>except (RemoteDisconnected, ChunkedEncodingError, ConnectionError,
  ProtocolError)\<close> clauses. The remaining constructors are the built-in errors that the
  subscripts, \<^verbatim>\<open>split\<close>, \<^verbatim>\<open>next\<close> and string concatenation of the source raise.
\<close>

datatype exn =
    HTTPError int
  | RemoteDisconnected
  | ChunkedEncodingError
  | ConnectionError
  | ProtocolError
  | KeyError
  | IndexError
  | ValueError
  | TypeError
  | AttributeError
  | StopIteration
  | OtherError string

text \<open>\<^verbatim>\<open>isinstance(exception, HTTPError) and exception.response.status_code < 500\<close>\<close>

fun is_final :: "exn \<Rightarrow> bool" where
  "is_final (HTTPError status_code) = (status_code < 500)"
| "is_final _ = False"

text \<open>Membership in the tuple of the connectivity \<^verbatim>\<open>except\<close> clauses.\<close>

fun is_connection_error :: "exn \<Rightarrow> bool" where
  "is_connection_error RemoteDisconnected = True"
| "is_connection_error ChunkedEncodingError = True"
| "is_connection_error ConnectionError = True"
| "is_connection_error ProtocolError = True"
| "is_connection_error _ = False"

text \<open>What \<^verbatim>\<open>json.loads\<close> returns (numbers restricted to integers).\<close>

datatype json =
    JNull
  | JBool bool
  | JInt int
  | JStr string
  | JArr "json list"
  | JObj "(string \<times> json) list"

text \<open>Python truthiness of a decoded value, as used by \<^verbatim>\<open>if upd\<close>.\<close>

fun truthy :: "json \<Rightarrow> bool" where
  "truthy JNull = False"
| "truthy (JBool b) = b"
| "truthy (JInt n) = (n \<noteq> 0)"
| "truthy (JStr s) = (s \<noteq> [])"
| "truthy (JArr xs) = (xs \<noteq> [])"
| "truthy (JObj kvs) = (kvs \<noteq> [])"

text \<open>
  The subscript \<^verbatim>\<open>v["key"]\<close> with a string key: a dict without the key raises
  \<open>KeyError\<close>, every other value raises \<open>TypeError\<close>.
\<close>

fun getitem :: "json \<Rightarrow> string \<Rightarrow> exn + json" where
  "getitem (JObj kvs) k = (case map_of kvs k of None \<Rightarrow> Inl KeyError | Some v \<Rightarrow> Inr v)"
| "getitem _ k = Inl TypeError"

text \<open>
  \<^verbatim>\<open>str.split()\<close> without arguments: the maximal runs of non-whitespace characters.
  A \<open>char\<close> stands for a code point below 256; the whitespace among these, by
  \<^verbatim>\<open>str.isspace\<close>, is 9 to 13, 28 to 32, 133 (U+0085) and 160 (U+00A0).
\<close>

definition is_space :: "char \<Rightarrow> bool" where
  "is_space c =
     (let n = (of_char c :: nat)
      in n = 32 \<or> (9 \<le> n \<and> n \<le> 13) \<or> (28 \<le> n \<and> n \<le> 31) \<or> n = 133 \<or> n = 160)"

fun split_run :: "string \<Rightarrow> string \<Rightarrow> string list" where
  "split_run [] cur = (if cur = [] then [] else [rev cur])"
| "split_run (c # cs) cur =
     (if is_space c
      then (if cur = [] then split_run cs [] else rev cur # split_run cs [])
      else split_run cs (c # cur))"

definition str_split :: "string \<Rightarrow> string list" where
  "str_split s = split_run s []"

text \<open>\<^verbatim>\<open>v.split()\<close> on a decoded value: only a string has the method.\<close>

fun json_split :: "json \<Rightarrow> exn + string list" where
  "json_split (JStr s) = Inr (str_split s)"
| "json_split _ = Inl AttributeError"

text \<open>\<^verbatim>\<open>str.lower()\<close> on ASCII letters.\<close>

definition char_lower :: "char \<Rightarrow> char" where
  "char_lower c =
     (let n = (of_char c :: nat) in if 65 \<le> n \<and> n \<le> 90 then char_of (n + 32) else c)"

definition str_lower :: "string \<Rightarrow> string" where
  "str_lower s = map char_lower s"

section \<open>Game and board\<close>

text \<open>
  The attributes of \<^verbatim>\<open>model.Game\<close> that \<^verbatim>\<open>__init__.py\<close> reads or assigns
  (\<^verbatim>\<open>game.id\<close> is \<open>game_id\<close>). The abort deadline is private to the methods
  \<^verbatim>\<open>abort_in\<close> and \<^verbatim>\<open>should_abort_now\<close>, which are collaborators below.
\<close>

record game =
  game_id :: string
  variant_name :: string
  initial_fen :: string
  white_starts :: bool
  is_white :: bool
  state :: json

text \<open>
  The rules engine (python-chess) as used by the source: \<^verbatim>\<open>chess.Board(fen, chess960=flag)\<close>,
  \<^verbatim>\<open>find_variant(name)()\<close>, \<^verbatim>\<open>chess.Move.from_uci\<close>, \<^verbatim>\<open>board.push\<close> and
  \<^verbatim>\<open>board.is_game_over\<close>. The constructors and the parser may raise.
\<close>

record ('b, 'm) rules =
  Board :: "string \<Rightarrow> bool \<Rightarrow> exn + 'b"
  find_variant :: "string \<Rightarrow> exn + 'b"
  from_uci :: "string \<Rightarrow> exn + 'm"
  push :: "'b \<Rightarrow> 'm \<Rightarrow> 'b"
  is_game_over :: "'b \<Rightarrow> bool"

definition update_board :: "('b, 'm) rules \<Rightarrow> 'b \<Rightarrow> string \<Rightarrow> exn + 'b" where
  "update_board r board move =
     (case from_uci r move of
        Inl e \<Rightarrow> Inl e
      | Inr uci_move \<Rightarrow> Inr (push r board uci_move))"

text \<open>The loop \<^verbatim>\<open>for move in moves: board = update_board(board, move)\<close>.\<close>

fun replay :: "('b, 'm) rules \<Rightarrow> 'b \<Rightarrow> string list \<Rightarrow> exn + 'b" where
  "replay r board [] = Inr board"
| "replay r board (move # moves) =
     (case update_board r board move of
        Inl e \<Rightarrow> Inl e
      | Inr board' \<Rightarrow> replay r board' moves)"

text \<open>\<^verbatim>\<open>game.state["moves"].split()\<close>\<close>

definition state_moves :: "json \<Rightarrow> exn + string list" where
  "state_moves st =
     (case getitem st ''moves'' of
        Inl e \<Rightarrow> Inl e
      | Inr v \<Rightarrow> json_split v)"

definition setup_board :: "('b, 'm) rules \<Rightarrow> game \<Rightarrow> exn + 'b" where
  "setup_board r g =
     (case (if str_lower (variant_name g) = ''chess960'' then Board r (initial_fen g) True
            else if variant_name g = ''From Position'' then Board r (initial_fen g) False
            else find_variant r (variant_name g)) of
        Inl e \<Rightarrow> Inl e
      | Inr board \<Rightarrow>
          (case state_moves (state g) of
             Inl e \<Rightarrow> Inl e
           | Inr moves \<Rightarrow> replay r board moves))"

definition is_white_to_move :: "game \<Rightarrow> string list \<Rightarrow> bool" where
  "is_white_to_move g moves =
     (int (length moves) mod 2 = (if white_starts g then 0 else 1))"

definition is_engine_move :: "game \<Rightarrow> string list \<Rightarrow> bool" where
  "is_engine_move g moves = (is_white g = is_white_to_move g moves)"

text \<open>
  Lines 150-151 of \<^verbatim>\<open>play_game\<close>: \<^verbatim>\<open>moves = upd["moves"].split()\<close> followed by
  \<^verbatim>\<open>board = update_board(board, moves[-1])\<close>; \<^verbatim>\<open>moves[-1]\<close> raises \<open>IndexError\<close> on an
  empty list. The result is the new board together with \<open>moves\<close>.
\<close>

definition advance :: "('b, 'm) rules \<Rightarrow> 'b \<Rightarrow> json \<Rightarrow> exn + ('b \<times> string list)" where
  "advance r board upd =
     (case state_moves upd of
        Inl e \<Rightarrow> Inl e
      | Inr moves \<Rightarrow>
          (if moves = [] then Inl IndexError
           else (case update_board r board (last moves) of
                   Inl e \<Rightarrow> Inl e
                 | Inr board' \<Rightarrow> Inr (board', moves))))"

text \<open>The board after a series of \<^verbatim>\<open>gameState\<close> updates, each advanced as above.\<close>

fun advance_all :: "('b, 'm) rules \<Rightarrow> 'b \<Rightarrow> json list \<Rightarrow> exn + 'b" where
  "advance_all r board [] = Inr board"
| "advance_all r board (upd # upds) =
     (case advance r board upd of
        Inl e \<Rightarrow> Inl e
      | Inr (board', moves) \<Rightarrow> advance_all r board' upds)"

section \<open>Collaborators\<close>

text \<open>
  A line of a streaming response as \<^verbatim>\<open>iter_lines\<close> yields it: empty, or non-empty and
  decoded by \<^verbatim>\<open>json.loads\<close> to a value of type \<open>'a\<close>, or non-empty and rejected by
  \<^verbatim>\<open>json.loads\<close> (a \<open>ValueError\<close>).
\<close>

datatype 'a chunk = Blank | Line 'a | Undecodable

text \<open>
  A streaming response: its \<^verbatim>\<open>status_code\<close>, the lines it yields, and how the iteration
  ends (\<open>None\<close>: the stream is exhausted; \<open>Some e\<close>: the iterator raises \<open>e\<close>).
\<close>

record 'a response =
  status_code :: json
  lines :: "'a chunk list"
  ending :: "exn option"

text \<open>\<^verbatim>\<open>model.Challenge\<close>: the attribute \<^verbatim>\<open>id\<close> and the data its methods compute from.\<close>

record challenge =
  challenge_id :: string
  challenge_info :: json

text \<open>
  The events of the control queue, by their \<^verbatim>\<open>"type"\<close>: \<^verbatim>\<open>"terminated"\<close>,
  \<^verbatim>\<open>"local_game_done"\<close>, \<^verbatim>\<open>"challenge"\<close> (with \<^verbatim>\<open>model.Challenge(event["challenge"])\<close>),
  \<^verbatim>\<open>"gameStart"\<close> (with \<^verbatim>\<open>event["game"]["id"]\<close>), \<^verbatim>\<open>"ping"\<close>, and any other type.
\<close>

datatype event =
    Ev_terminated
  | Ev_local_game_done
  | Ev_challenge challenge
  | Ev_gameStart string
  | Ev_ping
  | Ev_other string

text \<open>
  The dictionaries \<^verbatim>\<open>config["challenge"]\<close> and \<^verbatim>\<open>config\<close>; \<open>None\<close> is an absent key.
\<close>

record challenge_config =
  concurrency :: "int option"
  sort_by :: "string option"
  accept_bot :: "bool option"
  max_increment :: "int option"
  min_increment :: "int option"
  variants :: "string list option"
  time_controls :: "string list option"
  modes :: "string list option"

record config =
  url :: "string option"
  abort_time :: "int option"
  challenge :: "challenge_config option"

text \<open>
  The client \<^verbatim>\<open>li\<close> (\<^verbatim>\<open>lichess.Lichess\<close>). Every call reads and changes the state \<open>'w\<close>
  of the world outside the program (server, clock); a call either returns or raises.
\<close>

record ('w, 'm) lichess =
  get_profile :: "'w \<Rightarrow> (exn + json) \<times> 'w"
  upgrade_to_bot_account :: "'w \<Rightarrow> (exn + json) \<times> 'w"
  get_event_stream :: "'w \<Rightarrow> (exn + event response) \<times> 'w"
  get_game_stream :: "string \<Rightarrow> 'w \<Rightarrow> (exn + json response) \<times> 'w"
  accept_challenge :: "string \<Rightarrow> 'w \<Rightarrow> exn option \<times> 'w"
  decline_challenge :: "string \<Rightarrow> 'w \<Rightarrow> exn option \<times> 'w"
  make_move :: "string \<Rightarrow> 'm \<Rightarrow> 'w \<Rightarrow> exn option \<times> 'w"
  abort :: "string \<Rightarrow> 'w \<Rightarrow> exn option \<times> 'w"
  get_ongoing_games :: "'w \<Rightarrow> (exn + json list) \<times> 'w"

text \<open>
  The members of \<^verbatim>\<open>model.Challenge\<close> and \<^verbatim>\<open>model.Game\<close> that the source calls:
  \<^verbatim>\<open>chlng.is_supported(challenge_config)\<close>, \<^verbatim>\<open>c.score()\<close>,
  \<^verbatim>\<open>model.Game(info, username, li.baseUrl, abort_time)\<close>, \<^verbatim>\<open>game.abort_in(seconds)\<close> and
  \<^verbatim>\<open>game.should_abort_now()\<close>. The base URL is a constant of the client and is left out
  of the constructor's arguments; the deadline that the last two methods share is kept
  in \<open>'w\<close>.
\<close>

record 'w model =
  is_supported :: "challenge \<Rightarrow> challenge_config \<Rightarrow> bool"
  score :: "challenge \<Rightarrow> int"
  Game :: "json \<Rightarrow> json \<Rightarrow> int \<Rightarrow> 'w \<Rightarrow> (exn + game) \<times> 'w"
  abort_in :: "int \<Rightarrow> game \<Rightarrow> 'w \<Rightarrow> 'w"
  should_abort_now :: "game \<Rightarrow> 'w \<Rightarrow> bool"

text \<open>
  The engine: \<^verbatim>\<open>engine_factory()\<close>, \<^verbatim>\<open>engine.move(board, clock)\<close>, \<^verbatim>\<open>engine.stop()\<close>;
  and \<^verbatim>\<open>conversation.react(ChatLine(upd), game)\<close>.
\<close>

record ('w, 'b, 'm) engine =
  engine_factory :: "'w \<Rightarrow> exn option \<times> 'w"
  engine_move :: "'b \<Rightarrow> (string \<times> json) list \<Rightarrow> 'w \<Rightarrow> (exn + 'm) \<times> 'w"
  engine_stop :: "'w \<Rightarrow> exn option \<times> 'w"

record ('w, 'b, 'm) collaborators =
  li :: "('w, 'm) lichess"
  model :: "'w model"
  chess :: "('b, 'm) rules"
  engine :: "('w, 'b, 'm) engine"
  react :: "json \<Rightarrow> game \<Rightarrow> 'w \<Rightarrow> exn option \<times> 'w"

section \<open>The backoff decorator\<close>

text \<open>
  \<^verbatim>\<open>@backoff.on_exception(backoff.expo, BaseException, max_time=600, giveup=is_final)\<close>:
  the decorated function is called again after every exception, unless \<open>giveup\<close> holds
  of the exception or the time budget is used up; then the exception propagates. The
  first argument is the number of retries that the time budget still allows.
\<close>

fun on_exception :: "nat \<Rightarrow> (exn \<Rightarrow> bool) \<Rightarrow> ('s \<Rightarrow> exn option \<times> 's) \<Rightarrow> 's \<Rightarrow> exn option \<times> 's" where
  "on_exception 0 giveup target s = target s"
| "on_exception (Suc n) giveup target s =
     (case target s of
        (None, s') \<Rightarrow> (None, s')
      | (Some e, s') \<Rightarrow> if giveup e then (Some e, s') else on_exception n giveup target s')"

section \<open>The control stream consumer\<close>

text \<open>
  The \<^verbatim>\<open>for line in response.iter_lines()\<close> loop; the second argument is the content of
  the control queue, to which \<^verbatim>\<open>put_nowait\<close> appends.
\<close>

fun forward :: "event chunk list \<Rightarrow> event list \<Rightarrow> exn option \<times> event list" where
  "forward [] control_queue = (None, control_queue)"
| "forward (Line event # rest) control_queue = forward rest (control_queue @ [event])"
| "forward (Blank # rest) control_queue = forward rest (control_queue @ [Ev_ping])"
| "forward (Undecodable # rest) control_queue = (Some ValueError, control_queue)"

text \<open>
  The undecorated body of \<^verbatim>\<open>watch_control_stream\<close>. \<^verbatim>\<open>li.get_event_stream()\<close> is called
  before the \<^verbatim>\<open>try\<close>; inside it the loop runs and then the iterator ends or raises;
  the \<^verbatim>\<open>except\<close> clause catches the connectivity errors only.
\<close>

definition watch_control_stream_body ::
  "('w, 'm) lichess \<Rightarrow> 'w \<times> event list \<Rightarrow> exn option \<times> ('w \<times> event list)" where
  "watch_control_stream_body l s =
     (case s of (w, control_queue) \<Rightarrow>
        (case get_event_stream l w of
           (Inl e, w') \<Rightarrow> (Some e, (w', control_queue))
         | (Inr response, w') \<Rightarrow>
             (let (raised, q) =
                    (case forward (lines response) control_queue of
                       (Some e, q) \<Rightarrow> (Some e, q)
                     | (None, q) \<Rightarrow> (ending response, q))
              in (case raised of
                    None \<Rightarrow> (None, (w', q))
                  | Some e \<Rightarrow>
                      if is_connection_error e then (None, (w', q @ [Ev_terminated]))
                      else (Some e, (w', q))))))"

definition watch_control_stream ::
  "nat \<Rightarrow> ('w, 'm) lichess \<Rightarrow> 'w \<times> event list \<Rightarrow> exn option \<times> ('w \<times> event list)" where
  "watch_control_stream retries l = on_exception retries is_final (watch_control_stream_body l)"

section \<open>The dispatcher\<close>

text \<open>
  The local variables of \<^verbatim>\<open>start\<close> that the loop changes, the state behind \<^verbatim>\<open>li\<close>, and the
  game ids handed to \<^verbatim>\<open>pool.apply_async(play_game, ...)\<close> in order.
\<close>

record 'w dispatcher =
  challenge_queue :: "challenge list"
  busy_processes :: int
  queued_processes :: int
  world :: 'w
  pool :: "string list"

text \<open>
  The \<^verbatim>\<open>elif\<close> chain of the loop body for an event other than \<^verbatim>\<open>"terminated"\<close>.
  \<^verbatim>\<open>list_c.sort(key=lambda c: -c.score())\<close> is a stable sort, as is \<open>sort_key\<close>.
\<close>

definition on_event ::
  "('w, 'm) lichess \<Rightarrow> 'w model \<Rightarrow> challenge_config \<Rightarrow> event \<Rightarrow> 'w dispatcher
     \<Rightarrow> exn + 'w dispatcher" where
  "on_event l m challenge_config event d =
     (case event of
        Ev_local_game_done \<Rightarrow> Inr (d\<lparr>busy_processes := busy_processes d - 1\<rparr>)
      | Ev_challenge chlng \<Rightarrow>
          if is_supported m chlng challenge_config then
            (let appended = challenge_queue d @ [chlng] in
             Inr (d\<lparr>challenge_queue :=
                      (if (case sort_by challenge_config of None \<Rightarrow> ''best'' | Some v \<Rightarrow> v) = ''best''
                       then sort_key (\<lambda>c. - score m c) appended
                       else appended)\<rparr>))
          else
            (case decline_challenge l (challenge_id chlng) (world d) of
               (None, w) \<Rightarrow> Inr (d\<lparr>world := w\<rparr>)
             | (Some e, w) \<Rightarrow>
                 (case e of
                    HTTPError code \<Rightarrow> if code \<noteq> 404 then Inl e else Inr (d\<lparr>world := w\<rparr>)
                  | _ \<Rightarrow> Inl e))
      | Ev_gameStart gid \<Rightarrow>
          Inr (d\<lparr>queued_processes :=
                   (if queued_processes d \<le> 0 then queued_processes d
                    else queued_processes d - 1),
                 pool := pool d @ [gid],
                 busy_processes := busy_processes d + 1\<rparr>)
      | _ \<Rightarrow> Inr d)"

text \<open>
  The \<^verbatim>\<open>while ((queued_processes + busy_processes) < max_games and challenge_queue)\<close> loop.
  The third argument is the current content of \<^verbatim>\<open>challenge_queue\<close>; \<^verbatim>\<open>pop(0)\<close> takes its
  head, and the content is stored back when the loop is left.
\<close>

fun drain ::
  "('w, 'm) lichess \<Rightarrow> int \<Rightarrow> challenge list \<Rightarrow> 'w dispatcher \<Rightarrow> exn + 'w dispatcher" where
  "drain l max_games [] d = Inr (d\<lparr>challenge_queue := []\<rparr>)"
| "drain l max_games (chlng # rest) d =
     (if queued_processes d + busy_processes d < max_games then
        (case accept_challenge l (challenge_id chlng) (world d) of
           (None, w) \<Rightarrow>
             drain l max_games rest (d\<lparr>world := w, queued_processes := queued_processes d + 1\<rparr>)
         | (Some e, w) \<Rightarrow>
             (case e of
                HTTPError code \<Rightarrow>
                  if code = 404 then drain l max_games rest (d\<lparr>world := w\<rparr>) else Inl e
              | _ \<Rightarrow> Inl e))
      else Inr (d\<lparr>challenge_queue := chlng # rest\<rparr>))"

text \<open>One pass of the loop body: the event, then the admission-control loop.\<close>

definition iteration ::
  "('w, 'm) lichess \<Rightarrow> 'w model \<Rightarrow> challenge_config \<Rightarrow> int \<Rightarrow> event \<Rightarrow> 'w dispatcher
     \<Rightarrow> exn + 'w dispatcher" where
  "iteration l m challenge_config max_games event d =
     (case on_event l m challenge_config event d of
        Inl e \<Rightarrow> Inl e
      | Inr d' \<Rightarrow> drain l max_games (challenge_queue d') d')"

text \<open>
  The loop \<^verbatim>\<open>while not terminated: event = control_queue.get() ...\<close> over the events that
  \<^verbatim>\<open>get\<close> returns; the list ends where the interrupt flag stops the loop. Besides the
  result (the exception that leaves \<^verbatim>\<open>start\<close>, or the last state) the function returns
  one entry per completed pass: the state before it, its event and the state after it.
\<close>

type_synonym 'w pass = "'w dispatcher \<times> event \<times> 'w dispatcher"

fun start_loop ::
  "('w, 'm) lichess \<Rightarrow> 'w model \<Rightarrow> challenge_config \<Rightarrow> int \<Rightarrow> event list \<Rightarrow> 'w dispatcher
     \<Rightarrow> 'w pass list \<times> (exn + 'w dispatcher)" where
  "start_loop l m challenge_config max_games [] d = ([], Inr d)"
| "start_loop l m challenge_config max_games (event # events) d =
     (if event = Ev_terminated then ([], Inr d)
      else (case iteration l m challenge_config max_games event d of
              Inl e \<Rightarrow> ([], Inl e)
            | Inr d' \<Rightarrow>
                (case start_loop l m challenge_config max_games events d' of
                   (passes, result) \<Rightarrow> ((d, event, d') # passes, result))))"

definition start ::
  "('w, 'm) lichess \<Rightarrow> 'w model \<Rightarrow> config \<Rightarrow> event list \<Rightarrow> 'w
     \<Rightarrow> 'w pass list \<times> (exn + 'w dispatcher)" where
  "start l m config events w =
     (case challenge config of
        None \<Rightarrow> ([], Inl KeyError)
      | Some challenge_config \<Rightarrow>
          (case url config of
             None \<Rightarrow> ([], Inl KeyError)
           | Some u \<Rightarrow>
               start_loop l m challenge_config
                 (case concurrency challenge_config of None \<Rightarrow> 1 | Some n \<Rightarrow> n)
                 events
                 \<lparr>challenge_queue = [], busy_processes = 0, queued_processes = 0,
                  world = w, pool = []\<rparr>))"

section \<open>The entry point\<close>

text \<open>\<^verbatim>\<open>d.get(key)\<close> on a decoded value: only a dict has the method.\<close>

fun dict_get :: "json \<Rightarrow> string \<Rightarrow> exn + json option" where
  "dict_get (JObj kvs) k = Inr (map_of kvs k)"
| "dict_get _ k = Inl AttributeError"

text \<open>The dictionary literal \<^verbatim>\<open>CONFIG\<close> of \<^verbatim>\<open>serve_lichess\<close>.\<close>

definition CONFIG :: "string \<Rightarrow> int \<Rightarrow> string list \<Rightarrow> string list \<Rightarrow> config" where
  "CONFIG url_arg concurrency_arg time_controls_arg modes_arg =
     \<lparr>url = Some url_arg,
      abort_time = Some 20,
      challenge = Some
        \<lparr>concurrency = Some concurrency_arg,
         sort_by = Some ''first'',
         accept_bot = Some True,
         max_increment = Some 180,
         min_increment = Some 0,
         variants = Some [''standard''],
         time_controls = Some time_controls_arg,
         modes = Some modes_arg\<rparr>\<rparr>"

text \<open>
  What a call of \<^verbatim>\<open>serve_lichess\<close> comes to: an exception before \<^verbatim>\<open>start\<close>, the error
  message for an account that is not a bot, or the call of \<^verbatim>\<open>start\<close> with its
  configuration and outcome.
\<close>

datatype 'w served =
    Failed exn
  | Not_a_bot
  | Started config "'w pass list \<times> (exn + 'w dispatcher)"

definition upgrade_account :: "('w, 'm) lichess \<Rightarrow> 'w \<Rightarrow> (exn + bool) \<times> 'w" where
  "upgrade_account l w =
     (case upgrade_to_bot_account l w of
        (Inl e, w') \<Rightarrow> (Inl e, w')
      | (Inr v, w') \<Rightarrow> (if v = JNull then (Inr False, w') else (Inr True, w')))"

definition serve_lichess ::
  "('w, 'm) lichess \<Rightarrow> 'w model \<Rightarrow> int \<Rightarrow> string list \<Rightarrow> string list \<Rightarrow> bool \<Rightarrow> string
     \<Rightarrow> event list \<Rightarrow> 'w \<Rightarrow> 'w served" where
  "serve_lichess l m concurrency_arg time_controls_arg modes_arg upgrade url_arg events w =
     (case get_profile l w of
        (Inl e, w1) \<Rightarrow> Failed e
      | (Inr user_profile, w1) \<Rightarrow>
          (case getitem user_profile ''username'' of
             Inl e \<Rightarrow> Failed e
           | Inr username \<Rightarrow>
               (case dict_get user_profile ''title'' of
                  Inl e \<Rightarrow> Failed e
                | Inr title \<Rightarrow>
                    (let is_bot = (title = Some (JStr ''BOT'')) in
                     (case (if upgrade \<and> \<not> is_bot then upgrade_account l w1
                            else (Inr is_bot, w1)) of
                        (Inl e, w2) \<Rightarrow> Failed e
                      | (Inr is_bot', w2) \<Rightarrow>
                          (let cfg = CONFIG url_arg concurrency_arg time_controls_arg modes_arg
                           in if is_bot' then Started cfg (start l m cfg events w2)
                              else Not_a_bot))))))"

section \<open>The game worker\<close>

text \<open>The calls a worker makes on its collaborators, with their arguments.\<close>

datatype ('b, 'm) call =
    is_Engine_move: Engine_move 'b "(string \<times> json) list"
  | is_Make_move: Make_move string 'm
  | is_Abort: Abort string
  | is_React: React json
  | Get_ongoing_games
  | Engine_stop

text \<open>
  The local variables \<^verbatim>\<open>game\<close> and \<^verbatim>\<open>board\<close> of \<^verbatim>\<open>play_game\<close>, the state of the
  world, and the calls made so far.
\<close>

record ('w, 'b, 'm) session =
  cur_game :: game
  cur_board :: 'b
  cur_world :: 'w
  calls :: "('b, 'm) call list"

definition play_first_move ::
  "('w, 'b, 'm) collaborators \<Rightarrow> ('w, 'b, 'm) session \<Rightarrow> exn option \<times> ('w, 'b, 'm) session" where
  "play_first_move deps s =
     (case state_moves (state (cur_game s)) of
        Inl e \<Rightarrow> (Some e, s)
      | Inr moves \<Rightarrow>
          if is_engine_move (cur_game s) moves then
            (let clock = [(''movetime'', JInt 10000)] in
             case engine_move (engine deps) (cur_board s) clock (cur_world s) of
               (Inl e, w) \<Rightarrow>
                 (Some e, s\<lparr>cur_world := w, calls := calls s @ [Engine_move (cur_board s) clock]\<rparr>)
             | (Inr best_move, w) \<Rightarrow>
                 (case make_move (li deps) (game_id (cur_game s)) best_move w of
                    (raised, w') \<Rightarrow>
                      (raised,
                       s\<lparr>cur_world := w',
                         calls := calls s @ [Engine_move (cur_board s) clock,
                                             Make_move (game_id (cur_game s)) best_move]\<rparr>)))
          else (None, s))"

text \<open>
  \<^verbatim>\<open>{key: upd[key] for key in upd.keys() & {'wtime', 'btime', 'winc', 'binc'}}\<close> for the
  items of the dict \<^verbatim>\<open>upd\<close>.
\<close>

definition clock_fields :: "(string \<times> json) list \<Rightarrow> (string \<times> json) list" where
  "clock_fields kvs =
     List.map_filter (\<lambda>key. map_option (Pair key) (map_of kvs key))
       [''wtime'', ''btime'', ''winc'', ''binc'']"

text \<open>The \<^verbatim>\<open>u_type == "gameState"\<close> branch.\<close>

definition on_gameState ::
  "('w, 'b, 'm) collaborators \<Rightarrow> config \<Rightarrow> json \<Rightarrow> ('w, 'b, 'm) session
     \<Rightarrow> exn option \<times> ('w, 'b, 'm) session" where
  "on_gameState deps config upd s =
     (let g = (cur_game s)\<lparr>state := upd\<rparr> in
      case advance (chess deps) (cur_board s) upd of
        Inl e \<Rightarrow> (Some e, s\<lparr>cur_game := g\<rparr>)
      | Inr (board, moves) \<Rightarrow>
          (let s1 = s\<lparr>cur_game := g, cur_board := board\<rparr> in
           if \<not> is_game_over (chess deps) board \<and> is_engine_move g moves then
             (case upd of
                JObj kvs \<Rightarrow>
                  (let clock = clock_fields kvs in
                   case engine_move (engine deps) board clock (cur_world s) of
                     (Inl e, w) \<Rightarrow>
                       (Some e, s1\<lparr>cur_world := w, calls := calls s @ [Engine_move board clock]\<rparr>)
                   | (Inr best_move, w) \<Rightarrow>
                       (case make_move (li deps) (game_id g) best_move w of
                          (Some e, w') \<Rightarrow>
                            (Some e,
                             s1\<lparr>cur_world := w',
                                calls := calls s @ [Engine_move board clock,
                                                    Make_move (game_id g) best_move]\<rparr>)
                        | (None, w') \<Rightarrow>
                            (None,
                             s1\<lparr>cur_world :=
                                  abort_in (model deps)
                                    (case abort_time config of None \<Rightarrow> 20 | Some t \<Rightarrow> t) g w',
                                calls := calls s @ [Engine_move board clock,
                                                    Make_move (game_id g) best_move]\<rparr>)))
              | _ \<Rightarrow> (Some AttributeError, s1))
           else (None, s1)))"

text \<open>The \<^verbatim>\<open>u_type == "chatLine"\<close> and \<^verbatim>\<open>u_type == "ping"\<close> branches.\<close>

definition on_chatLine ::
  "('w, 'b, 'm) collaborators \<Rightarrow> json \<Rightarrow> ('w, 'b, 'm) session
     \<Rightarrow> exn option \<times> ('w, 'b, 'm) session" where
  "on_chatLine deps upd s =
     (case react deps upd (cur_game s) (cur_world s) of
        (raised, w) \<Rightarrow> (raised, s\<lparr>cur_world := w, calls := calls s @ [React upd]\<rparr>))"

definition on_ping ::
  "('w, 'b, 'm) collaborators \<Rightarrow> ('w, 'b, 'm) session \<Rightarrow> exn option \<times> ('w, 'b, 'm) session" where
  "on_ping deps s =
     (if should_abort_now (model deps) (cur_game s) (cur_world s) then
        (case abort (li deps) (game_id (cur_game s)) (cur_world s) of
           (raised, w) \<Rightarrow>
             (raised, s\<lparr>cur_world := w, calls := calls s @ [Abort (game_id (cur_game s))]\<rparr>))
      else (None, s))"

text \<open>
  The body of \<^verbatim>\<open>for binary_chunk in lines\<close>:
  \<^verbatim>\<open>upd = json.loads(binary_chunk.decode('utf-8')) if binary_chunk else None\<close>,
  \<^verbatim>\<open>u_type = upd["type"] if upd else "ping"\<close>, and the \<^verbatim>\<open>if\<close>/\<^verbatim>\<open>elif\<close> chain on
  \<^verbatim>\<open>u_type\<close>. Where \<^verbatim>\<open>u_type\<close> is not \<^verbatim>\<open>"ping"\<close> it was read from a truthy \<^verbatim>\<open>upd\<close>.
\<close>

definition on_chunk ::
  "('w, 'b, 'm) collaborators \<Rightarrow> config \<Rightarrow> json chunk \<Rightarrow> ('w, 'b, 'm) session
     \<Rightarrow> exn option \<times> ('w, 'b, 'm) session" where
  "on_chunk deps config binary_chunk s =
     (case (case binary_chunk of
              Blank \<Rightarrow> Inr None
            | Line v \<Rightarrow> Inr (Some v)
            | Undecodable \<Rightarrow> Inl ValueError) of
        Inl e \<Rightarrow> (Some e, s)
      | Inr upd \<Rightarrow>
          (case (case upd of
                   None \<Rightarrow> Inr (JStr ''ping'')
                 | Some v \<Rightarrow> if truthy v then getitem v ''type'' else Inr (JStr ''ping'')) of
             Inl e \<Rightarrow> (Some e, s)
           | Inr u_type \<Rightarrow>
               if u_type = JStr ''chatLine'' then
                 (case upd of None \<Rightarrow> (Some TypeError, s) | Some v \<Rightarrow> on_chatLine deps v s)
               else if u_type = JStr ''gameState'' then
                 (case upd of None \<Rightarrow> (Some TypeError, s) | Some v \<Rightarrow> on_gameState deps config v s)
               else if u_type = JStr ''ping'' then on_ping deps s
               else (None, s)))"

fun stream_loop ::
  "('w, 'b, 'm) collaborators \<Rightarrow> config \<Rightarrow> json chunk list \<Rightarrow> ('w, 'b, 'm) session
     \<Rightarrow> exn option \<times> ('w, 'b, 'm) session" where
  "stream_loop deps config [] s = (None, s)"
| "stream_loop deps config (binary_chunk # rest) s =
     (case on_chunk deps config binary_chunk s of
        (Some e, s') \<Rightarrow> (Some e, s')
      | (None, s') \<Rightarrow> stream_loop deps config rest s')"

text \<open>
  The \<^verbatim>\<open>try\<close> block: the first move, the loop over the remaining lines, and the way the
  iterator ends.
\<close>

definition try_block ::
  "('w, 'b, 'm) collaborators \<Rightarrow> config \<Rightarrow> json chunk list \<Rightarrow> exn option
     \<Rightarrow> ('w, 'b, 'm) session \<Rightarrow> exn option \<times> ('w, 'b, 'm) session" where
  "try_block deps config rest end_of_stream s =
     (case play_first_move deps s of
        (Some e, s1) \<Rightarrow> (Some e, s1)
      | (None, s1) \<Rightarrow>
          (case stream_loop deps config rest s1 of
             (Some e, s2) \<Rightarrow> (Some e, s2)
           | (None, s2) \<Rightarrow> (end_of_stream, s2)))"

text \<open>
  The loop of the \<^verbatim>\<open>except HTTPError\<close> clause: \<open>Inr True\<close> when an ongoing game has the
  id of this game (\<^verbatim>\<open>game_over = False; break\<close>).
\<close>

fun still_ongoing :: "json list \<Rightarrow> string \<Rightarrow> exn + bool" where
  "still_ongoing [] gid = Inr False"
| "still_ongoing (ongoing_game # rest) gid =
     (case getitem ongoing_game ''gameId'' of
        Inl e \<Rightarrow> Inl e
      | Inr v \<Rightarrow> if v = JStr gid then Inr True else still_ongoing rest gid)"

text \<open>
  The two \<^verbatim>\<open>except\<close> clauses, applied to what the \<^verbatim>\<open>try\<close> block raised. In the first,
  \<^verbatim>\<open>"Abandoning game due to HTTP " + response.status_code\<close> concatenates a string with the
  status code of the stream's response, which raises \<open>TypeError\<close> unless that is a string.
\<close>

definition except_clauses ::
  "('w, 'b, 'm) collaborators \<Rightarrow> json \<Rightarrow> exn \<Rightarrow> ('w, 'b, 'm) session
     \<Rightarrow> exn option \<times> ('w, 'b, 'm) session" where
  "except_clauses deps response_status_code e s =
     (case e of
        HTTPError code \<Rightarrow>
          (case get_ongoing_games (li deps) (cur_world s) of
             (Inl e', w) \<Rightarrow> (Some e', s\<lparr>cur_world := w, calls := calls s @ [Get_ongoing_games]\<rparr>)
           | (Inr ongoing_games, w) \<Rightarrow>
               (let s' = s\<lparr>cur_world := w, calls := calls s @ [Get_ongoing_games]\<rparr> in
                case still_ongoing ongoing_games (game_id (cur_game s)) of
                  Inl e' \<Rightarrow> (Some e', s')
                | Inr ongoing \<Rightarrow>
                    if ongoing then
                      (case response_status_code of
                         JStr text \<Rightarrow> (None, s')
                       | _ \<Rightarrow> (Some TypeError, s'))
                    else (None, s')))
      | _ \<Rightarrow> if is_connection_error e then (None, s) else (Some e, s))"

text \<open>
  The undecorated body of \<^verbatim>\<open>play_game\<close> on the state of the world and the content of the
  control queue. Everything up to \<^verbatim>\<open>Conversation(...)\<close> runs before the \<^verbatim>\<open>try\<close>
  statement; the \<^verbatim>\<open>finally\<close> clause stops the engine and then puts the event, and the
  exception pending after the \<^verbatim>\<open>except\<close> clauses, if any, propagates after it.
\<close>

definition play_game_body ::
  "('w, 'b, 'm) collaborators \<Rightarrow> string \<Rightarrow> json \<Rightarrow> config \<Rightarrow> 'w \<times> event list
     \<Rightarrow> exn option \<times> ('w \<times> event list)" where
  "play_game_body deps gid user_profile config st =
     (case st of (w, control_queue) \<Rightarrow>
      (case get_game_stream (li deps) gid w of
         (Inl e, w1) \<Rightarrow> (Some e, (w1, control_queue))
       | (Inr response, w1) \<Rightarrow>
      (case lines response of
         [] \<Rightarrow> (Some (case ending response of None \<Rightarrow> StopIteration | Some e \<Rightarrow> e),
                (w1, control_queue))
       | first # rest \<Rightarrow>
      (case first of
         Blank \<Rightarrow> (Some ValueError, (w1, control_queue))
       | Undecodable \<Rightarrow> (Some ValueError, (w1, control_queue))
       | Line info \<Rightarrow>
      (case getitem user_profile ''username'' of
         Inl e \<Rightarrow> (Some e, (w1, control_queue))
       | Inr username \<Rightarrow>
      (case Game (model deps) info username
              (case abort_time config of None \<Rightarrow> 20 | Some t \<Rightarrow> t) w1 of
         (Inl e, w2) \<Rightarrow> (Some e, (w2, control_queue))
       | (Inr g, w2) \<Rightarrow>
      (case setup_board (chess deps) g of
         Inl e \<Rightarrow> (Some e, (w2, control_queue))
       | Inr board \<Rightarrow>
      (case engine_factory (engine deps) w2 of
         (Some e, w3) \<Rightarrow> (Some e, (w3, control_queue))
       | (None, w3) \<Rightarrow>
          (let s0 = \<lparr>cur_game = g, cur_board = board, cur_world = w3, calls = []\<rparr>;
               (pending, s2) =
                 (case try_block deps config rest (ending response) s0 of
                    (None, s1) \<Rightarrow> (None, s1)
                  | (Some e, s1) \<Rightarrow> except_clauses deps (status_code response) e s1)
           in (case engine_stop (engine deps) (cur_world s2) of
                 (Some e, w4) \<Rightarrow> (Some e, (w4, control_queue))
               | (None, w4) \<Rightarrow> (pending, (w4, control_queue @ [Ev_local_game_done]))))))))))))"

definition play_game ::
  "nat \<Rightarrow> ('w, 'b, 'm) collaborators \<Rightarrow> string \<Rightarrow> json \<Rightarrow> config \<Rightarrow> 'w \<times> event list
     \<Rightarrow> exn option \<times> ('w \<times> event list)" where
  "play_game retries deps gid user_profile config =
     on_exception retries is_final (play_game_body deps gid user_profile config)"

section \<open>Concrete collaborators for evaluation\<close>

text \<open>
  A small world in which the definitions above can be run: boards are the list of the
  start position and the moves pushed, and the replies of the server depend on the
  identifier asked for. The state of the world is a counter that tells the calls apart:
  opening a game stream adds 1, a submitted move 10, an abort 100, and a deadline set by
  \<^verbatim>\<open>abort_in\<close> 1000.
\<close>

definition demo_rules :: "(string list, string) rules" where
  "demo_rules =
     \<lparr>Board = (\<lambda>fen chess960. if fen = [] then Inl ValueError else Inr [fen]),
      find_variant = (\<lambda>name. if name = ''Standard'' then Inr [''startpos''] else Inl ValueError),
      from_uci = (\<lambda>uci. if length uci = 4 \<or> length uci = 5 then Inr uci else Inl ValueError),
      push = (\<lambda>board move. board @ [move]),
      is_game_over = (\<lambda>board. last board = ''f7f8'')\<rparr>"

definition demo_model :: "nat model" where
  "demo_model =
     \<lparr>is_supported = (\<lambda>c cc. case variants cc of
                                None \<Rightarrow> False
                              | Some vs \<Rightarrow> (case getitem (challenge_info c) ''variant'' of
                                             Inr (JStr v) \<Rightarrow> v \<in> set vs
                                           | _ \<Rightarrow> False)),
      score = (\<lambda>c. case getitem (challenge_info c) ''rating'' of Inr (JInt n) \<Rightarrow> n | _ \<Rightarrow> 0),
      Game = (\<lambda>info username seconds w.
                case getitem info ''id'' of
                  Inr (JStr i) \<Rightarrow>
                    (Inr \<lparr>game_id = i, variant_name = ''Standard'', initial_fen = ''startpos'',
                          white_starts = True,
                          is_white = (getitem info ''white'' = Inr username),
                          state = (case getitem info ''state'' of Inr st \<Rightarrow> st | Inl e \<Rightarrow> JNull)\<rparr>, w)
                | _ \<Rightarrow> (Inl KeyError, w)),
      abort_in = (\<lambda>seconds g w. w + 1000),
      should_abort_now = (\<lambda>g w. 20 < w)\<rparr>"

definition demo_challenge :: "string \<Rightarrow> string \<Rightarrow> int \<Rightarrow> challenge" where
  "demo_challenge i variant rating =
     \<lparr>challenge_id = i,
      challenge_info = JObj [(''variant'', JStr variant), (''rating'', JInt rating)]\<rparr>"

definition demo_info :: "string \<Rightarrow> string \<Rightarrow> json" where
  "demo_info i moves =
     JObj [(''id'', JStr i), (''white'', JStr ''opponent''),
           (''state'', JObj [(''type'', JStr ''gameState''), (''moves'', JStr moves)])]"

definition demo_gameState :: "string \<Rightarrow> json" where
  "demo_gameState moves =
     JObj [(''type'', JStr ''gameState''), (''moves'', JStr moves),
           (''wtime'', JInt 60000), (''btime'', JInt 59000), (''status'', JStr ''started'')]"

definition demo_game_stream :: "string \<Rightarrow> nat \<Rightarrow> exn + json response" where
  "demo_game_stream gid w =
     (if gid = ''gone'' then Inl (HTTPError 404)
      else if gid = ''aborted'' \<and> w = 0 then
        Inr \<lparr>status_code = JInt 200,
             lines = [Line (demo_info gid []), Line (demo_gameState [])],
             ending = None\<rparr>
      else
        Inr \<lparr>status_code = JInt 200, lines = [Line (demo_info gid [])], ending = None\<rparr>)"

definition demo_event_stream :: "nat \<Rightarrow> exn + event response" where
  "demo_event_stream w =
     (if w = 0 then
        Inr \<lparr>status_code = JInt 200, lines = [Line (Ev_gameStart ''g1''), Blank], ending = None\<rparr>
      else if w = 1 then
        Inr \<lparr>status_code = JInt 200, lines = [Line (Ev_gameStart ''g1''), Blank],
             ending = Some ChunkedEncodingError\<rparr>
      else Inl (HTTPError 401))"

definition demo_reply :: "string \<Rightarrow> exn option" where
  "demo_reply i =
     (if i = ''withdrawn'' then Some (HTTPError 404)
      else if i = ''forbidden'' then Some (HTTPError 403)
      else None)"

definition demo_li :: "(nat, string) lichess" where
  "demo_li =
     \<lparr>get_profile = (\<lambda>w. (Inr (JObj [(''username'', JStr ''bot''), (''title'', JStr ''BOT'')]), w)),
      upgrade_to_bot_account = (\<lambda>w. (Inr JNull, w)),
      get_event_stream = (\<lambda>w. (demo_event_stream w, w)),
      get_game_stream = (\<lambda>gid w. (demo_game_stream gid w, Suc w)),
      accept_challenge = (\<lambda>i w. (demo_reply i, w)),
      decline_challenge = (\<lambda>i w. (demo_reply i, w)),
      make_move = (\<lambda>gid move w. (None, w + 10)),
      abort = (\<lambda>gid w. (None, w + 100)),
      get_ongoing_games = (\<lambda>w. (Inr [], w))\<rparr>"

definition demo_engine :: "(nat, string list, string) engine" where
  "demo_engine =
     \<lparr>engine_factory = (\<lambda>w. (None, w)),
      engine_move = (\<lambda>board clock w. (Inr ''e7e5'', w)),
      engine_stop = (\<lambda>w. (None, w))\<rparr>"

definition demo_deps :: "(nat, string list, string) collaborators" where
  "demo_deps =
     \<lparr>li = demo_li, model = demo_model, chess = demo_rules, engine = demo_engine,
      react = (\<lambda>upd g w. (None, w))\<rparr>"

definition demo_game :: "string \<Rightarrow> game" where
  "demo_game moves =
     \<lparr>game_id = ''g1'', variant_name = ''Standard'', initial_fen = ''startpos'',
      white_starts = True, is_white = False, state = demo_gameState moves\<rparr>"

definition demo_dispatcher :: "challenge list \<Rightarrow> int \<Rightarrow> int \<Rightarrow> string list \<Rightarrow> nat dispatcher" where
  "demo_dispatcher q busy queued games =
     \<lparr>challenge_queue = q, busy_processes = busy, queued_processes = queued, world = 0,
      pool = games\<rparr>"

definition demo_policy :: "string option \<Rightarrow> int \<Rightarrow> challenge_config" where
  "demo_policy policy capacity =
     \<lparr>concurrency = Some capacity, sort_by = policy, accept_bot = Some True,
      max_increment = Some 180, min_increment = Some 0, variants = Some [''standard''],
      time_controls = Some [''blitz''], modes = Some [''casual'']\<rparr>"

definition demo_config :: "string option \<Rightarrow> int \<Rightarrow> config" where
  "demo_config policy capacity =
     \<lparr>url = Some ''https://lichess.org/'', abort_time = Some 20,
      challenge = Some (demo_policy policy capacity)\<rparr>"

definition demo_session :: "string \<Rightarrow> nat \<Rightarrow> (nat, string list, string) session" where
  "demo_session moves w =
     \<lparr>cur_game = demo_game moves, cur_board = ''startpos'' # str_split moves, cur_world = w,
      calls = []\<rparr>"

definition demo_profile :: json where
  "demo_profile = JObj [(''username'', JStr ''bot''), (''title'', JStr ''BOT'')]"

lemmas demo_defs =
  demo_rules_def demo_model_def demo_challenge_def demo_info_def demo_gameState_def
  demo_game_stream_def demo_event_stream_def demo_reply_def demo_li_def demo_engine_def
  demo_deps_def demo_game_def demo_dispatcher_def demo_policy_def demo_config_def
  demo_session_def demo_profile_def

section \<open>Properties of the dispatcher\<close>

lemma drain_counters:
  "drain l max_games q d = Inr d' \<Longrightarrow>
     busy_processes d' = busy_processes d \<and> pool d' = pool d
     \<and> queued_processes d \<le> queued_processes d'
     \<and> (queued_processes d + busy_processes d \<le> max_games
          \<longrightarrow> queued_processes d' + busy_processes d' \<le> max_games)"
proof (induction q arbitrary: d)
  case Nil
  then show ?case by auto
next
  case (Cons c q)
  show ?case
  proof (cases "queued_processes d + busy_processes d < max_games")
    case False
    with Cons.prems show ?thesis by auto
  next
    case True
    obtain r w where acc: "accept_challenge l (challenge_id c) (world d) = (r, w)"
      by (cases "accept_challenge l (challenge_id c) (world d)")
    show ?thesis
    proof (cases r)
      case None
      with Cons.prems True acc
      have "drain l max_games q (d\<lparr>world := w, queued_processes := queued_processes d + 1\<rparr>) = Inr d'"
        by simp
      from Cons.IH [OF this] True show ?thesis by auto
    next
      case (Some e)
      with Cons.prems True acc
      have "drain l max_games q (d\<lparr>world := w\<rparr>) = Inr d'"
        by (cases e) (auto split: if_splits)
      from Cons.IH [OF this] show ?thesis by auto
    qed
  qed
qed

lemma drain_suffix:
  "drain l max_games q d = Inr d' \<Longrightarrow> suffix (challenge_queue d') q"
proof (induction q arbitrary: d)
  case Nil
  then show ?case by auto
next
  case (Cons c q)
  show ?case
  proof (cases "queued_processes d + busy_processes d < max_games")
    case False
    with Cons.prems show ?thesis by auto
  next
    case True
    obtain r w where acc: "accept_challenge l (challenge_id c) (world d) = (r, w)"
      by (cases "accept_challenge l (challenge_id c) (world d)")
    have "\<exists>d1. drain l max_games q d1 = Inr d'"
    proof (cases r)
      case None
      with Cons.prems True acc show ?thesis by auto
    next
      case (Some e)
      with Cons.prems True acc show ?thesis by (cases e) (auto split: if_splits)
    qed
    then obtain d1 where "drain l max_games q d1 = Inr d'" ..
    from Cons.IH [OF this] show ?thesis by (rule suffix_ConsI)
  qed
qed

lemma on_event_counters:
  assumes "on_event l m cc event d = Inr d1"
  shows "(0 \<le> queued_processes d \<longrightarrow> 0 \<le> queued_processes d1)
     \<and> (event = Ev_local_game_done \<longrightarrow> busy_processes d1 = busy_processes d - 1)
     \<and> ((\<forall>gid. event = Ev_gameStart gid \<longrightarrow> 0 < queued_processes d)
          \<longrightarrow> queued_processes d1 + busy_processes d1 \<le> queued_processes d + busy_processes d)"
  using assms
  by (cases event)
     (auto simp: on_event_def Let_def split: if_splits prod.splits option.splits exn.splits)

lemma iteration_counters:
  assumes "iteration l m cc max_games event d = Inr d'"
  shows "(0 \<le> queued_processes d \<longrightarrow> 0 \<le> queued_processes d')
     \<and> (event = Ev_local_game_done \<longrightarrow> busy_processes d' = busy_processes d - 1)
     \<and> (queued_processes d + busy_processes d \<le> max_games
          \<and> (\<forall>gid. event = Ev_gameStart gid \<longrightarrow> 0 < queued_processes d)
          \<longrightarrow> queued_processes d' + busy_processes d' \<le> max_games)"
proof -
  from assms obtain d1 where ev: "on_event l m cc event d = Inr d1"
    and dr: "drain l max_games (challenge_queue d1) d1 = Inr d'"
    by (auto simp: iteration_def split: sum.splits)
  from on_event_counters [OF ev] drain_counters [OF dr] show ?thesis
    by auto
qed

lemma start_loop_counters:
  assumes "start_loop l m cc max_games events d0 = (passes, result)"
    and "(d, event, d') \<in> set passes"
    and "0 \<le> queued_processes d0"
  shows "0 \<le> queued_processes d'
     \<and> (event = Ev_local_game_done \<longrightarrow> busy_processes d' = busy_processes d - 1)
     \<and> (queued_processes d0 + busy_processes d0 \<le> max_games
          \<and> (\<forall>(a, ev, b) \<in> set passes. \<forall>gid. ev = Ev_gameStart gid \<longrightarrow> 0 < queued_processes a)
          \<longrightarrow> queued_processes d' + busy_processes d' \<le> max_games)"
  using assms
proof (induction events arbitrary: d0 passes result)
  case Nil
  then show ?case by simp
next
  case (Cons ev events)
  from Cons.prems(1,2) have nt: "ev \<noteq> Ev_terminated"
    by (auto split: if_splits)
  from Cons.prems(1,2) nt obtain d1 where it: "iteration l m cc max_games ev d0 = Inr d1"
    by (cases "iteration l m cc max_games ev d0") auto
  obtain ps r where rest: "start_loop l m cc max_games events d1 = (ps, r)"
    by (cases "start_loop l m cc max_games events d1")
  from Cons.prems(1) nt it rest have passes: "passes = (d0, ev, d1) # ps"
    by simp
  note ic = iteration_counters [OF it]
  show ?case
  proof (cases "(d, event, d') = (d0, ev, d1)")
    case True
    with ic Cons.prems(3) passes show ?thesis by auto
  next
    case False
    with Cons.prems(2) passes have mem: "(d, event, d') \<in> set ps" by auto
    from ic Cons.prems(3) have q1: "0 \<le> queued_processes d1" by simp
    from Cons.IH [OF rest mem q1] ic passes show ?thesis by auto
  qed
qed


lemma on_event_queue:
  assumes "on_event l m cc event d = Inr d1"
  shows "challenge_queue d1 = challenge_queue d
     \<or> (\<exists>c. event = Ev_challenge c \<and> is_supported m c cc
            \<and> (challenge_queue d1 = challenge_queue d @ [c]
                \<or> challenge_queue d1 = sort_key (\<lambda>c. - score m c) (challenge_queue d @ [c])))"
  using assms
  by (cases event)
     (auto simp: on_event_def Let_def split: if_splits prod.splits option.splits exn.splits)

lemma iteration_ids:
  assumes "iteration l m cc max_games event d = Inr d'"
    and "distinct (map challenge_id (challenge_queue d) @ map challenge_id [c. Ev_challenge c \<leftarrow> [event]])"
  shows "distinct (map challenge_id (challenge_queue d'))"
    and "set (map challenge_id (challenge_queue d'))
           \<subseteq> set (map challenge_id (challenge_queue d)) \<union> set (map challenge_id [c. Ev_challenge c \<leftarrow> [event]])"
proof -
  from assms(1) obtain d1 where ev: "on_event l m cc event d = Inr d1"
    and dr: "drain l max_games (challenge_queue d1) d1 = Inr d'"
    by (auto simp: iteration_def split: sum.splits)
  from drain_suffix [OF dr] obtain pre where q1: "challenge_queue d1 = pre @ challenge_queue d'"
    by (auto simp: suffix_def)
  let ?ids = "map challenge_id (challenge_queue d) @ map challenge_id [c. Ev_challenge c \<leftarrow> [event]]"
  have "distinct (map challenge_id (challenge_queue d1))
      \<and> set (map challenge_id (challenge_queue d1)) \<subseteq> set ?ids"
  proof -
    consider "challenge_queue d1 = challenge_queue d"
      | c where "event = Ev_challenge c" "challenge_queue d1 = challenge_queue d @ [c]"
      | c where "event = Ev_challenge c"
          "challenge_queue d1 = sort_key (\<lambda>c. - score m c) (challenge_queue d @ [c])"
      using on_event_queue [OF ev] by blast
    then show ?thesis
    proof cases
      case 1
      with assms(2) show ?thesis by auto
    next
      case 2
      with assms(2) show ?thesis by auto
    next
      case 3
      from assms(2) 3(1) have "distinct (map challenge_id (challenge_queue d @ [c]))"
        by simp
      then have "distinct (map challenge_id (challenge_queue d1))"
        unfolding 3(2) by (auto simp: distinct_map)
      moreover have "set (map challenge_id (challenge_queue d1)) \<subseteq> set ?ids"
        unfolding 3(2) using 3(1) by auto
      ultimately show ?thesis by simp
    qed
  qed
  then show "distinct (map challenge_id (challenge_queue d'))"
    and "set (map challenge_id (challenge_queue d'))
           \<subseteq> set (map challenge_id (challenge_queue d)) \<union> set (map challenge_id [c. Ev_challenge c \<leftarrow> [event]])"
    unfolding q1 by auto
qed

lemma distinct_shrink:
  "distinct (a @ n @ l) \<Longrightarrow> distinct b \<Longrightarrow> set b \<subseteq> set a \<union> set n \<Longrightarrow> distinct (b @ l)"
  by auto

lemma start_loop_ids:
  assumes "start_loop l m cc max_games events d0 = (passes, result)"
    and "distinct (map challenge_id (challenge_queue d0) @ map challenge_id [c. Ev_challenge c \<leftarrow> events])"
  shows "(\<forall>(d, event, d') \<in> set passes. distinct (map challenge_id (challenge_queue d')))
       \<and> (\<forall>d. result = Inr d \<longrightarrow> distinct (map challenge_id (challenge_queue d)))"
  using assms
proof (induction events arbitrary: d0 passes result)
  case Nil
  then show ?case by auto
next
  case (Cons ev events)
  show ?case
  proof (cases "ev = Ev_terminated")
    case True
    with Cons.prems show ?thesis by auto
  next
    case nt: False
    show ?thesis
    proof (cases "iteration l m cc max_games ev d0")
      case (Inl e)
      with Cons.prems nt show ?thesis by auto
    next
      case (Inr d1)
      obtain ps r where rest: "start_loop l m cc max_games events d1 = (ps, r)"
        by (cases "start_loop l m cc max_games events d1")
      from Cons.prems(1) nt Inr rest have passes: "passes = (d0, ev, d1) # ps" and res: "result = r"
        by simp_all
      let ?new = "map challenge_id [c. Ev_challenge c \<leftarrow> [ev]]"
      let ?later = "map challenge_id [c. Ev_challenge c \<leftarrow> events]"
      from Cons.prems(2)
      have all: "distinct (map challenge_id (challenge_queue d0) @ ?new @ ?later)"
        by simp
      then have now: "distinct (map challenge_id (challenge_queue d0) @ ?new)"
        by auto
      note ids = iteration_ids [OF Inr now]
      have "distinct (map challenge_id (challenge_queue d1) @ ?later)"
        by (rule distinct_shrink [OF all ids(1) ids(2)])
      from Cons.IH [OF rest this] ids(1) show ?thesis
        by (simp add: passes res)
    qed
  qed
qed

lemma suffix_filter_keep:
  "suffix xs ys \<Longrightarrow> suffix (filter P xs) (filter P ys)"
  by (auto simp: suffix_def)

lemma suffix_snoc_both:
  "suffix xs ys \<Longrightarrow> suffix (xs @ zs) (ys @ zs)"
  by (auto simp: suffix_def)

lemma sorted_suffix:
  "suffix xs ys \<Longrightarrow> sorted (map f ys) \<Longrightarrow> sorted (map f xs)"
  by (auto simp: suffix_def sorted_append)

lemma on_event_best:
  assumes "on_event l m cc event d = Inr d1"
    and "(case sort_by cc of None \<Rightarrow> ''best'' | Some v \<Rightarrow> v) = ''best''"
  shows "(\<exists>c. event = Ev_challenge c \<and> is_supported m c cc
            \<and> challenge_queue d1 = sort_key (\<lambda>c. - score m c) (challenge_queue d @ [c]))
       \<or> (challenge_queue d1 = challenge_queue d
            \<and> [c. Ev_challenge c \<leftarrow> [event], is_supported m c cc] = [])"
  using assms
  by (cases event)
     (auto simp: on_event_def Let_def split: if_splits prod.splits option.splits exn.splits)

lemma iteration_best:
  assumes "iteration l m cc max_games event d = Inr d'"
    and "(case sort_by cc of None \<Rightarrow> ''best'' | Some v \<Rightarrow> v) = ''best''"
  shows "(sorted (map (\<lambda>c. - score m c) (challenge_queue d))
            \<longrightarrow> sorted (map (\<lambda>c. - score m c) (challenge_queue d')))
       \<and> (\<forall>c. event = Ev_challenge c \<and> is_supported m c cc
            \<longrightarrow> sorted (map (\<lambda>c. - score m c) (challenge_queue d')))
       \<and> (\<forall>k. suffix (filter (\<lambda>x. score m x = k) (challenge_queue d'))
                 (filter (\<lambda>x. score m x = k)
                    (challenge_queue d @ [c. Ev_challenge c \<leftarrow> [event], is_supported m c cc])))"
proof -
  from assms(1) obtain d1 where ev: "on_event l m cc event d = Inr d1"
    and dr: "drain l max_games (challenge_queue d1) d1 = Inr d'"
    by (auto simp: iteration_def split: sum.splits)
  note suf = drain_suffix [OF dr]
  from on_event_best [OF ev assms(2)] show ?thesis
  proof
    assume "\<exists>c. event = Ev_challenge c \<and> is_supported m c cc
            \<and> challenge_queue d1 = sort_key (\<lambda>c. - score m c) (challenge_queue d @ [c])"
    then obtain c where c: "event = Ev_challenge c" "is_supported m c cc"
      and q1: "challenge_queue d1 = sort_key (\<lambda>c. - score m c) (challenge_queue d @ [c])"
      by blast
    have srt: "sorted (map (\<lambda>c. - score m c) (challenge_queue d1))"
      unfolding q1 by (rule sorted_sort_key)
    have stab: "filter (\<lambda>x. score m x = k) (challenge_queue d1)
                  = filter (\<lambda>x. score m x = k) (challenge_queue d @ [c])" for k
    proof -
      have "filter (\<lambda>x. - score m x = - k) (sort_key (\<lambda>c. - score m c) (challenge_queue d @ [c]))
              = filter (\<lambda>x. - score m x = - k) (challenge_queue d @ [c])"
        by (rule sort_key_stable)
      then show ?thesis unfolding q1 by simp
    qed
    have "suffix (filter (\<lambda>x. score m x = k) (challenge_queue d'))
            (filter (\<lambda>x. score m x = k) (challenge_queue d @ [c]))" for k
      using suffix_filter_keep [OF suf, of "\<lambda>x. score m x = k"] stab [of k] by simp
    with sorted_suffix [OF suf srt] c show ?thesis by simp
  next
    assume same: "challenge_queue d1 = challenge_queue d
            \<and> [c. Ev_challenge c \<leftarrow> [event], is_supported m c cc] = []"
    then have nosup: "\<not> (\<exists>c. event = Ev_challenge c \<and> is_supported m c cc)"
      by auto
    from same suf have suf': "suffix (challenge_queue d') (challenge_queue d)" by simp
    have "suffix (filter (\<lambda>x. score m x = k) (challenge_queue d'))
            (filter (\<lambda>x. score m x = k) (challenge_queue d))" for k
      by (rule suffix_filter_keep [OF suf'])
    with sorted_suffix [OF suf'] nosup same show ?thesis by auto
  qed
qed

lemma start_loop_best:
  assumes "start_loop l m cc max_games events d0 = (passes, result)"
    and "(case sort_by cc of None \<Rightarrow> ''best'' | Some v \<Rightarrow> v) = ''best''"
    and "sorted (map (\<lambda>c. - score m c) (challenge_queue d0))"
    and "\<forall>k. suffix (filter (\<lambda>x. score m x = k) (challenge_queue d0)) (filter (\<lambda>x. score m x = k) arrived)"
  shows "(\<forall>(d, event, d') \<in> set passes.
            sorted (map (\<lambda>c. - score m c) (challenge_queue d'))
            \<and> (\<forall>k. suffix (filter (\<lambda>x. score m x = k) (challenge_queue d'))
                      (filter (\<lambda>x. score m x = k)
                         (challenge_queue d @ [c. Ev_challenge c \<leftarrow> [event], is_supported m c cc]))))
       \<and> (\<forall>d. result = Inr d \<and> Ev_terminated \<notin> set events
            \<longrightarrow> (\<forall>k. suffix (filter (\<lambda>x. score m x = k) (challenge_queue d))
                         (filter (\<lambda>x. score m x = k)
                            (arrived @ [c. Ev_challenge c \<leftarrow> events, is_supported m c cc]))))"
  using assms(1,3,4)
proof (induction events arbitrary: d0 passes result arrived)
  case Nil
  from Nil.prems(1) have "passes = []" and "result = Inr d0" by simp_all
  with Nil.prems(3) show ?case by simp
next
  case (Cons ev events)
  show ?case
  proof (cases "ev = Ev_terminated")
    case True
    with Cons.prems(1) have "passes = []" by simp
    with True show ?thesis by simp
  next
    case nt: False
    show ?thesis
    proof (cases "iteration l m cc max_games ev d0")
      case (Inl e)
      with Cons.prems(1) nt have "passes = []" and "result = Inl e" by simp_all
      then show ?thesis by simp
    next
      case (Inr d1)
      obtain ps r where rest: "start_loop l m cc max_games events d1 = (ps, r)"
        by (cases "start_loop l m cc max_games events d1")
      from Cons.prems(1) nt Inr rest have passes: "passes = (d0, ev, d1) # ps" and res: "result = r"
        by simp_all
      define new where "new = [c. Ev_challenge c \<leftarrow> [ev], is_supported m c cc]"
      define later where "later = [c. Ev_challenge c \<leftarrow> events, is_supported m c cc]"
      have split_evs: "[c. Ev_challenge c \<leftarrow> ev # events, is_supported m c cc] = new @ later"
        unfolding new_def later_def by simp
      note ib = iteration_best [OF Inr assms(2)]
      from ib Cons.prems(2) have srt1: "sorted (map (\<lambda>c. - score m c) (challenge_queue d1))"
        by blast
      from ib have step: "suffix (filter (\<lambda>x. score m x = k) (challenge_queue d1))
                 (filter (\<lambda>x. score m x = k) (challenge_queue d0 @ new))" for k
        unfolding new_def by blast
      have arr1: "\<forall>k. suffix (filter (\<lambda>x. score m x = k) (challenge_queue d1))
                 (filter (\<lambda>x. score m x = k) (arrived @ new))"
      proof
        fix k
        from Cons.prems(3)
        have "suffix (filter (\<lambda>x. score m x = k) (challenge_queue d0))
                (filter (\<lambda>x. score m x = k) arrived)"
          by blast
        then have "suffix (filter (\<lambda>x. score m x = k) (challenge_queue d0) @ filter (\<lambda>x. score m x = k) new)
                (filter (\<lambda>x. score m x = k) arrived @ filter (\<lambda>x. score m x = k) new)"
          by (rule suffix_snoc_both)
        then have "suffix (filter (\<lambda>x. score m x = k) (challenge_queue d0 @ new))
                (filter (\<lambda>x. score m x = k) (arrived @ new))"
          by (simp only: filter_append)
        with step [of k] show "suffix (filter (\<lambda>x. score m x = k) (challenge_queue d1))
                 (filter (\<lambda>x. score m x = k) (arrived @ new))"
          by (rule suffix_order.trans)
      qed
      note ih = Cons.IH [OF rest srt1 arr1, folded later_def]
      from ih have ih1: "\<forall>(d, event, d') \<in> set ps.
            sorted (map (\<lambda>c. - score m c) (challenge_queue d'))
            \<and> (\<forall>k. suffix (filter (\<lambda>x. score m x = k) (challenge_queue d'))
                      (filter (\<lambda>x. score m x = k)
                         (challenge_queue d @ [c. Ev_challenge c \<leftarrow> [event], is_supported m c cc])))"
        by (rule conjunct1)
      from ih have ih2: "\<forall>d. r = Inr d \<and> Ev_terminated \<notin> set events
            \<longrightarrow> (\<forall>k. suffix (filter (\<lambda>x. score m x = k) (challenge_queue d))
                         (filter (\<lambda>x. score m x = k) ((arrived @ new) @ later)))"
        by (rule conjunct2)
      have head: "sorted (map (\<lambda>c. - score m c) (challenge_queue d1))
            \<and> (\<forall>k. suffix (filter (\<lambda>x. score m x = k) (challenge_queue d1))
                      (filter (\<lambda>x. score m x = k)
                         (challenge_queue d0 @ [c. Ev_challenge c \<leftarrow> [ev], is_supported m c cc])))"
        using srt1 step unfolding new_def by blast
      have c1: "\<forall>(d, event, d') \<in> set passes.
            sorted (map (\<lambda>c. - score m c) (challenge_queue d'))
            \<and> (\<forall>k. suffix (filter (\<lambda>x. score m x = k) (challenge_queue d'))
                      (filter (\<lambda>x. score m x = k)
                         (challenge_queue d @ [c. Ev_challenge c \<leftarrow> [event], is_supported m c cc])))"
        unfolding passes using head ih1 by simp
      have c2: "\<forall>d. result = Inr d \<and> Ev_terminated \<notin> set (ev # events)
            \<longrightarrow> (\<forall>k. suffix (filter (\<lambda>x. score m x = k) (challenge_queue d))
                         (filter (\<lambda>x. score m x = k)
                            (arrived @ [c. Ev_challenge c \<leftarrow> ev # events, is_supported m c cc])))"
        unfolding split_evs res using ih2 by simp
      from c1 c2 show ?thesis by (rule conjI)
    qed
  qed
qed

lemma descending_iff:
  "sorted (map (\<lambda>c. - f c) xs) = sorted_wrt (\<lambda>a b. (f b :: int) \<le> f a) xs"
  by (simp add: sorted_map)

section \<open>Properties of the board\<close>

lemma replay_append:
  "replay r b (ms @ ks) = (case replay r b ms of Inl e \<Rightarrow> Inl e | Inr b' \<Rightarrow> replay r b' ks)"
  by (induction ms arbitrary: b) (auto split: sum.splits)

lemma advance_all_prefixes:
  "map state_moves upds = map (\<lambda>i. Inr (pre @ take (Suc i) ks)) [0..<length ks]
   \<Longrightarrow> advance_all r b upds = replay r b ks"
proof (induction ks arbitrary: pre upds b)
  case Nil
  then show ?case by simp
next
  case (Cons k ks)
  from Cons.prems obtain u us where upds: "upds = u # us"
    by (cases upds) (auto simp: upt_conv_Cons simp del: upt_Suc)
  from Cons.prems have hd: "state_moves u = Inr (pre @ [k])"
    and tl: "map state_moves us = map (\<lambda>i. Inr ((pre @ [k]) @ take (Suc i) ks)) [0..<length ks]"
    unfolding upds by (simp_all add: map_upt_Suc del: upt_Suc)
  have rest: "advance_all r b' us = replay r b' ks" for b'
    by (rule Cons.IH [OF tl])
  show ?case
    unfolding upds by (simp add: advance_def hd rest split: sum.splits)
qed

text \<open>
  Claim C6. Let the snapshot of a game record the moves \<open>ms\<close>, and let \<open>k\<close> updates of type
  \<^verbatim>\<open>gameState\<close> follow, the \<open>i\<close>-th listing \<open>ms\<close> and the first \<open>i\<close> of the further moves
  \<open>ks\<close>. Building the board with \<open>setup_board\<close> from the snapshot and advancing it by the newest
  move of each update gives what \<open>setup_board\<close> gives for a snapshot of the same variant and
  position that records all of \<open>ms @ ks\<close>: the same board, or the same exception.
\<close>

theorem incremental_replay_agrees:
  assumes "variant_name g2 = variant_name g1" and "initial_fen g2 = initial_fen g1"
    and "state_moves (state g1) = Inr ms" and "state_moves (state g2) = Inr (ms @ ks)"
    and "map state_moves upds = map (\<lambda>i. Inr (ms @ take (Suc i) ks)) [0..<length ks]"
  shows "(case setup_board r g1 of Inl e \<Rightarrow> Inl e | Inr board \<Rightarrow> advance_all r board upds)
         = setup_board r g2"
proof -
  let ?init = "if str_lower (variant_name g1) = ''chess960'' then Board r (initial_fen g1) True
               else if variant_name g1 = ''From Position'' then Board r (initial_fen g1) False
               else find_variant r (variant_name g1)"
  have inc: "advance_all r b upds = replay r b ks" for b
    by (rule advance_all_prefixes [OF assms(5)])
  have s1: "setup_board r g1 = (case ?init of Inl e \<Rightarrow> Inl e | Inr b \<Rightarrow> replay r b ms)"
    by (simp add: setup_board_def assms(3) split: sum.splits)
  have s2: "setup_board r g2 = (case ?init of Inl e \<Rightarrow> Inl e | Inr b \<Rightarrow> replay r b (ms @ ks))"
    by (simp add: setup_board_def assms(1,2,4) split: sum.splits)
  show ?thesis
  proof (cases ?init)
    case (Inl e)
    then show ?thesis by (simp add: s1 s2)
  next
    case (Inr b)
    then show ?thesis by (simp add: s1 s2 replay_append inc split: sum.splits)
  qed
qed

lemma demo_state_moves:
  "state_moves (demo_gameState ''e2e4 e7e5'') = Inr [''e2e4'', ''e7e5'']"
  "state_moves (demo_gameState ''e2e4 e7e5 g1f3'') = Inr [''e2e4'', ''e7e5'', ''g1f3'']"
  "state_moves (demo_gameState ''e2e4 e7e5 g1f3 b8c6'') = Inr [''e2e4'', ''e7e5'', ''g1f3'', ''b8c6'']"
  by (simp_all add: state_moves_def demo_gameState_def str_split_def is_space_def)

theorem incremental_replay_agrees_witness:
  "state_moves (state (demo_game ''e2e4 e7e5'')) = Inr [''e2e4'', ''e7e5'']
   \<and> state_moves (state (demo_game ''e2e4 e7e5 g1f3 b8c6'')) = Inr ([''e2e4'', ''e7e5''] @ [''g1f3'', ''b8c6''])
   \<and> map state_moves [demo_gameState ''e2e4 e7e5 g1f3'', demo_gameState ''e2e4 e7e5 g1f3 b8c6'']
       = [Inr [''e2e4'', ''e7e5'', ''g1f3''], Inr [''e2e4'', ''e7e5'', ''g1f3'', ''b8c6'']]
   \<and> (case setup_board demo_rules (demo_game ''e2e4 e7e5'') of
         Inl e \<Rightarrow> Inl e
       | Inr board \<Rightarrow>
           advance_all demo_rules board
             [demo_gameState ''e2e4 e7e5 g1f3'', demo_gameState ''e2e4 e7e5 g1f3 b8c6''])
      = setup_board demo_rules (demo_game ''e2e4 e7e5 g1f3 b8c6'')
   \<and> setup_board demo_rules (demo_game ''e2e4 e7e5 g1f3 b8c6'')
      = Inr [''startpos'', ''e2e4'', ''e7e5'', ''g1f3'', ''b8c6'']"
proof -
  have h1: "variant_name (demo_game ''e2e4 e7e5 g1f3 b8c6'') = variant_name (demo_game ''e2e4 e7e5'')"
    and h2: "initial_fen (demo_game ''e2e4 e7e5 g1f3 b8c6'') = initial_fen (demo_game ''e2e4 e7e5'')"
    and h3: "state_moves (state (demo_game ''e2e4 e7e5'')) = Inr [''e2e4'', ''e7e5'']"
    and h4: "state_moves (state (demo_game ''e2e4 e7e5 g1f3 b8c6'')) = Inr ([''e2e4'', ''e7e5''] @ [''g1f3'', ''b8c6''])"
    by (simp_all add: demo_game_def demo_state_moves)
  have h5: "map state_moves [demo_gameState ''e2e4 e7e5 g1f3'', demo_gameState ''e2e4 e7e5 g1f3 b8c6'']
      = map (\<lambda>i. Inr ([''e2e4'', ''e7e5''] @ take (Suc i) [''g1f3'', ''b8c6''])) [0..<length [''g1f3'', ''b8c6'']]"
    by (simp add: demo_state_moves upt_rec)
  have final: "setup_board demo_rules (demo_game ''e2e4 e7e5 g1f3 b8c6'')
      = Inr [''startpos'', ''e2e4'', ''e7e5'', ''g1f3'', ''b8c6'']"
    by (simp add: setup_board_def demo_game_def demo_state_moves demo_rules_def update_board_def
          str_lower_def char_lower_def)
  show ?thesis
    using incremental_replay_agrees [OF h1 h2 h3 h4 h5, of demo_rules] h3 h4 h5 final
    by (simp add: upt_rec)
qed

text \<open>
  Claim C1, as amended. After every pass of the loop of \<open>start\<close> (an event followed by the
  admission-control loop), \<open>queued_processes\<close> is not negative; a \<^verbatim>\<open>local_game_done\<close> event
  leaves \<open>busy_processes\<close> smaller by exactly one; and \<open>queued_processes + busy_processes\<close>
  is at most \<open>max_games\<close>, provided that \<open>max_games\<close> is not negative and every
  \<^verbatim>\<open>gameStart\<close> event of the run found a queued process.
\<close>

theorem dispatcher_counters:
  assumes "start l m config events w = (passes, result)"
    and "challenge config = Some cc"
    and "max_games = (case concurrency cc of None \<Rightarrow> 1 | Some n \<Rightarrow> n)"
    and "(d, event, d') \<in> set passes"
  shows "0 \<le> queued_processes d'
     \<and> (event = Ev_local_game_done \<longrightarrow> busy_processes d' = busy_processes d - 1)
     \<and> (0 \<le> max_games
          \<and> (\<forall>(a, ev, b) \<in> set passes. \<forall>gid. ev = Ev_gameStart gid \<longrightarrow> 0 < queued_processes a)
          \<longrightarrow> queued_processes d' + busy_processes d' \<le> max_games)"
proof (cases "url config")
  case None
  with assms show ?thesis by (simp add: start_def)
next
  case (Some u)
  let ?d0 = "\<lparr>challenge_queue = [], busy_processes = 0, queued_processes = 0, world = w, pool = []\<rparr>"
  from assms(1,2,3) Some have run: "start_loop l m cc max_games events ?d0 = (passes, result)"
    by (simp add: start_def)
  from start_loop_counters [OF run assms(4)] show ?thesis by simp
qed

theorem dispatcher_counters_witness:
  "start demo_li demo_model (CONFIG [] 1 [] [''casual''])
      [Ev_challenge (demo_challenge ''a'' ''standard'' 5), Ev_gameStart ''g1'', Ev_local_game_done] 0
    = ([(demo_dispatcher [] 0 0 [], Ev_challenge (demo_challenge ''a'' ''standard'' 5),
         demo_dispatcher [] 0 1 []),
        (demo_dispatcher [] 0 1 [], Ev_gameStart ''g1'', demo_dispatcher [] 1 0 [''g1'']),
        (demo_dispatcher [] 1 0 [''g1''], Ev_local_game_done, demo_dispatcher [] 0 0 [''g1''])],
       Inr (demo_dispatcher [] 0 0 [''g1'']))
   \<and> 0 \<le> queued_processes (demo_dispatcher [] 0 0 [''g1''])
   \<and> busy_processes (demo_dispatcher [] 0 0 [''g1''])
        = busy_processes (demo_dispatcher [] 1 0 [''g1'']) - 1
   \<and> queued_processes (demo_dispatcher [] 0 0 [''g1''])
        + busy_processes (demo_dispatcher [] 0 0 [''g1'']) \<le> 1"
proof -
  let ?c = "CONFIG [] 1 [] [''casual'']"
  let ?evs = "[Ev_challenge (demo_challenge ''a'' ''standard'' 5), Ev_gameStart ''g1'', Ev_local_game_done]"
  let ?ps = "[(demo_dispatcher [] 0 0 [], Ev_challenge (demo_challenge ''a'' ''standard'' 5),
         demo_dispatcher [] 0 1 []),
        (demo_dispatcher [] 0 1 [], Ev_gameStart ''g1'', demo_dispatcher [] 1 0 [''g1'']),
        (demo_dispatcher [] 1 0 [''g1''], Ev_local_game_done, demo_dispatcher [] 0 0 [''g1''])]"
  have run: "start demo_li demo_model ?c ?evs 0 = (?ps, Inr (demo_dispatcher [] 0 0 [''g1'']))"
    by (simp add: start_def CONFIG_def iteration_def on_event_def demo_defs)
  have cc: "challenge ?c = Some \<lparr>concurrency = Some 1, sort_by = Some ''first'', accept_bot = Some True,
      max_increment = Some 180, min_increment = Some 0, variants = Some [''standard''],
      time_controls = Some [], modes = Some [''casual'']\<rparr>"
    by (simp add: CONFIG_def)
  have mem: "(demo_dispatcher [] 1 0 [''g1''], Ev_local_game_done, demo_dispatcher [] 0 0 [''g1'']) \<in> set ?ps"
    by simp
  show ?thesis
    using dispatcher_counters [OF run cc _ mem, of 1] run
    by (simp add: demo_dispatcher_def)
qed

theorem dispatcher_counters_counterexample:
  "snd (start demo_li demo_model (CONFIG [] 1 [] [''casual''])
          [Ev_gameStart ''g1'', Ev_gameStart ''g2''] 0)
     = Inr (demo_dispatcher [] 2 0 [''g1'', ''g2''])
   \<and> \<not> (queued_processes (demo_dispatcher [] 2 0 [''g1'', ''g2''])
          + busy_processes (demo_dispatcher [] 2 0 [''g1'', ''g2'']) \<le> 1)
   \<and> snd (start demo_li demo_model (CONFIG [] 1 [] [''casual'']) [Ev_local_game_done] 0)
     = Inr (demo_dispatcher [] (- 1) 0 [])
   \<and> \<not> (0 \<le> busy_processes (demo_dispatcher [] (- 1) 0 []))"
  by (simp add: start_def CONFIG_def iteration_def on_event_def demo_defs)

text \<open>
  Claim C3, as amended. If the challenge events that the dispatcher processes carry
  pairwise distinct identifiers, then after every pass, and at the end of the loop, no two
  entries of the challenge queue have the same identifier.
\<close>

theorem queue_ids_distinct:
  assumes "start l m config events w = (passes, result)"
    and "distinct (map challenge_id [c. Ev_challenge c \<leftarrow> events])"
  shows "(\<forall>(d, event, d') \<in> set passes. distinct (map challenge_id (challenge_queue d')))
       \<and> (\<forall>d. result = Inr d \<longrightarrow> distinct (map challenge_id (challenge_queue d)))"
proof (cases "challenge config")
  case None
  with assms(1) show ?thesis by (auto simp: start_def)
next
  case (Some cc)
  show ?thesis
  proof (cases "url config")
    case None
    with assms(1) Some show ?thesis by (auto simp: start_def)
  next
    case u: (Some u)
    let ?d0 = "\<lparr>challenge_queue = [], busy_processes = 0, queued_processes = 0, world = w, pool = []\<rparr>"
    from assms(1) Some u
    have run: "start_loop l m cc (case concurrency cc of None \<Rightarrow> 1 | Some n \<Rightarrow> n) events ?d0
                 = (passes, result)"
      by (simp add: start_def)
    from assms(2)
    have "distinct (map challenge_id (challenge_queue ?d0) @ map challenge_id [c. Ev_challenge c \<leftarrow> events])"
      by simp
    from start_loop_ids [OF run this] show ?thesis .
  qed
qed

theorem queue_ids_distinct_witness:
  "distinct (map challenge_id [demo_challenge ''a'' ''standard'' 5, demo_challenge ''b'' ''standard'' 9,
        demo_challenge ''c'' ''standard'' 7])
   \<and> snd (start demo_li demo_model (CONFIG [] 1 [] [''casual''])
        [Ev_challenge (demo_challenge ''a'' ''standard'' 5), Ev_challenge (demo_challenge ''b'' ''standard'' 9),
         Ev_ping, Ev_challenge (demo_challenge ''c'' ''standard'' 7)] 0)
      = Inr (demo_dispatcher [demo_challenge ''b'' ''standard'' 9, demo_challenge ''c'' ''standard'' 7] 0 1 [])
   \<and> distinct (map challenge_id
        (challenge_queue (demo_dispatcher [demo_challenge ''b'' ''standard'' 9, demo_challenge ''c'' ''standard'' 7] 0 1 [])))"
proof -
  let ?evs = "[Ev_challenge (demo_challenge ''a'' ''standard'' 5), Ev_challenge (demo_challenge ''b'' ''standard'' 9),
         Ev_ping, Ev_challenge (demo_challenge ''c'' ''standard'' 7)]"
  let ?run = "start demo_li demo_model (CONFIG [] 1 [] [''casual'']) ?evs 0"
  have run: "?run = (fst ?run, snd ?run)" by simp
  have res: "snd ?run = Inr (demo_dispatcher [demo_challenge ''b'' ''standard'' 9, demo_challenge ''c'' ''standard'' 7] 0 1 [])"
    by (simp add: start_def CONFIG_def iteration_def on_event_def demo_defs)
  have ids: "distinct (map challenge_id [c. Ev_challenge c \<leftarrow> ?evs])"
    by (simp add: demo_challenge_def)
  show ?thesis
    using queue_ids_distinct [OF run ids] res
    by (simp add: demo_challenge_def)
qed

theorem queue_ids_distinct_counterexample:
  "snd (start demo_li demo_model (CONFIG [] 1 [] [''casual''])
        [Ev_challenge (demo_challenge ''a'' ''standard'' 5), Ev_challenge (demo_challenge ''b'' ''standard'' 9),
         Ev_challenge (demo_challenge ''b'' ''standard'' 9)] 0)
      = Inr (demo_dispatcher [demo_challenge ''b'' ''standard'' 9, demo_challenge ''b'' ''standard'' 9] 0 1 [])
   \<and> \<not> distinct (map challenge_id
        (challenge_queue (demo_dispatcher [demo_challenge ''b'' ''standard'' 9, demo_challenge ''b'' ''standard'' 9] 0 1 [])))"
  by (simp add: start_def CONFIG_def iteration_def on_event_def demo_defs)

text \<open>
  Claim C7, as amended. Under the policy \<^verbatim>\<open>sort_by = "best"\<close> (also the default), after
  every pass of the loop of \<open>start\<close> the challenge queue is sorted by descending score,
  entries of equal score standing side by side; after the pass of a supported challenge,
  the entries of any one score stand in the order they had in the queue before, the new
  challenge last (the sort is stable); and at the end of a run the entries of any one
  score stand in the order in which their challenges arrived.
\<close>

theorem best_first_sorted_stable:
  assumes "start l m config events w = (passes, result)"
    and "challenge config = Some cc"
    and "(case sort_by cc of None \<Rightarrow> ''best'' | Some v \<Rightarrow> v) = ''best''"
  shows "(\<forall>(d, event, d') \<in> set passes.
            sorted_wrt (\<lambda>a b. score m b \<le> score m a) (challenge_queue d')
            \<and> (\<forall>c k. event = Ev_challenge c \<and> is_supported m c cc
                  \<longrightarrow> suffix (filter (\<lambda>x. score m x = k) (challenge_queue d'))
                        (filter (\<lambda>x. score m x = k) (challenge_queue d @ [c]))))
       \<and> (\<forall>d. result = Inr d \<and> Ev_terminated \<notin> set events
            \<longrightarrow> (\<forall>k. suffix (filter (\<lambda>x. score m x = k) (challenge_queue d))
                         (filter (\<lambda>x. score m x = k)
                            [c. Ev_challenge c \<leftarrow> events, is_supported m c cc])))"
proof (cases "url config")
  case None
  with assms(1,2) have "passes = []" and "result = Inl KeyError" by (simp_all add: start_def)
  then show ?thesis by simp
next
  case (Some u)
  let ?d0 = "\<lparr>challenge_queue = [], busy_processes = 0, queued_processes = 0, world = w, pool = []\<rparr>"
  from assms(1,2) Some
  have run: "start_loop l m cc (case concurrency cc of None \<Rightarrow> 1 | Some n \<Rightarrow> n) events ?d0
               = (passes, result)"
    by (simp add: start_def)
  have s0: "sorted (map (\<lambda>c. - score m c) (challenge_queue ?d0))" by simp
  have a0: "\<forall>k. suffix (filter (\<lambda>x. score m x = k) (challenge_queue ?d0)) (filter (\<lambda>x. score m x = k) [])"
    by simp
  note inv = start_loop_best [OF run assms(3) s0 a0]
  from inv have p1: "\<forall>(d, event, d') \<in> set passes.
            sorted (map (\<lambda>c. - score m c) (challenge_queue d'))
            \<and> (\<forall>k. suffix (filter (\<lambda>x. score m x = k) (challenge_queue d'))
                      (filter (\<lambda>x. score m x = k)
                         (challenge_queue d @ [c. Ev_challenge c \<leftarrow> [event], is_supported m c cc])))"
    by (rule conjunct1)
  have c1: "\<forall>(d, event, d') \<in> set passes.
            sorted_wrt (\<lambda>a b. score m b \<le> score m a) (challenge_queue d')
            \<and> (\<forall>c k. event = Ev_challenge c \<and> is_supported m c cc
                  \<longrightarrow> suffix (filter (\<lambda>x. score m x = k) (challenge_queue d'))
                        (filter (\<lambda>x. score m x = k) (challenge_queue d @ [c])))"
  proof (clarify, intro conjI allI impI)
    fix d event d'
    assume mem: "(d, event, d') \<in> set passes"
    with p1 have srt: "sorted (map (\<lambda>c. - score m c) (challenge_queue d'))"
      and stab: "\<And>k. suffix (filter (\<lambda>x. score m x = k) (challenge_queue d'))
                      (filter (\<lambda>x. score m x = k)
                         (challenge_queue d @ [c. Ev_challenge c \<leftarrow> [event], is_supported m c cc]))"
      by blast+
    from srt show "sorted_wrt (\<lambda>a b. score m b \<le> score m a) (challenge_queue d')"
      by (simp only: descending_iff)
    fix c k
    assume "event = Ev_challenge c \<and> is_supported m c cc"
    with stab [of k] show "suffix (filter (\<lambda>x. score m x = k) (challenge_queue d'))
                        (filter (\<lambda>x. score m x = k) (challenge_queue d @ [c]))"
      by simp
  qed
  from inv have c2: "\<forall>d. result = Inr d \<and> Ev_terminated \<notin> set events
            \<longrightarrow> (\<forall>k. suffix (filter (\<lambda>x. score m x = k) (challenge_queue d))
                         (filter (\<lambda>x. score m x = k)
                            ([] @ [c. Ev_challenge c \<leftarrow> events, is_supported m c cc])))"
    by (rule conjunct2)
  then have c2': "\<forall>d. result = Inr d \<and> Ev_terminated \<notin> set events
            \<longrightarrow> (\<forall>k. suffix (filter (\<lambda>x. score m x = k) (challenge_queue d))
                         (filter (\<lambda>x. score m x = k)
                            [c. Ev_challenge c \<leftarrow> events, is_supported m c cc]))"
    by (simp only: append_Nil)
  from c1 c2' show ?thesis by (rule conjI)
qed

theorem best_first_sorted_stable_witness:
  "start demo_li demo_model (demo_config (Some ''best'') 1)
      [Ev_gameStart ''g0'', Ev_challenge (demo_challenge ''a'' ''standard'' 5),
       Ev_challenge (demo_challenge ''b'' ''standard'' 9),
       Ev_challenge (demo_challenge ''c'' ''standard'' 5)] 0
    = ([(demo_dispatcher [] 0 0 [], Ev_gameStart ''g0'', demo_dispatcher [] 1 0 [''g0'']),
        (demo_dispatcher [] 1 0 [''g0''], Ev_challenge (demo_challenge ''a'' ''standard'' 5),
         demo_dispatcher [demo_challenge ''a'' ''standard'' 5] 1 0 [''g0'']),
        (demo_dispatcher [demo_challenge ''a'' ''standard'' 5] 1 0 [''g0''],
         Ev_challenge (demo_challenge ''b'' ''standard'' 9),
         demo_dispatcher [demo_challenge ''b'' ''standard'' 9, demo_challenge ''a'' ''standard'' 5]
           1 0 [''g0'']),
        (demo_dispatcher [demo_challenge ''b'' ''standard'' 9, demo_challenge ''a'' ''standard'' 5]
           1 0 [''g0''],
         Ev_challenge (demo_challenge ''c'' ''standard'' 5),
         demo_dispatcher [demo_challenge ''b'' ''standard'' 9, demo_challenge ''a'' ''standard'' 5,
                          demo_challenge ''c'' ''standard'' 5] 1 0 [''g0''])],
       Inr (demo_dispatcher [demo_challenge ''b'' ''standard'' 9, demo_challenge ''a'' ''standard'' 5,
                             demo_challenge ''c'' ''standard'' 5] 1 0 [''g0'']))
   \<and> map (score demo_model)
        [demo_challenge ''b'' ''standard'' 9, demo_challenge ''a'' ''standard'' 5,
         demo_challenge ''c'' ''standard'' 5] = [9, 5, 5]
   \<and> sorted_wrt (\<lambda>a b. score demo_model b \<le> score demo_model a)
        [demo_challenge ''b'' ''standard'' 9, demo_challenge ''a'' ''standard'' 5,
         demo_challenge ''c'' ''standard'' 5]
   \<and> suffix (filter (\<lambda>x. score demo_model x = 5)
        [demo_challenge ''b'' ''standard'' 9, demo_challenge ''a'' ''standard'' 5,
         demo_challenge ''c'' ''standard'' 5])
       (filter (\<lambda>x. score demo_model x = 5)
        [demo_challenge ''a'' ''standard'' 5, demo_challenge ''b'' ''standard'' 9,
         demo_challenge ''c'' ''standard'' 5])"
proof -
  let ?evs = "[Ev_gameStart ''g0'', Ev_challenge (demo_challenge ''a'' ''standard'' 5),
       Ev_challenge (demo_challenge ''b'' ''standard'' 9),
       Ev_challenge (demo_challenge ''c'' ''standard'' 5)]"
  let ?q = "[demo_challenge ''b'' ''standard'' 9, demo_challenge ''a'' ''standard'' 5,
             demo_challenge ''c'' ''standard'' 5]"
  let ?ps = "[(demo_dispatcher [] 0 0 [], Ev_gameStart ''g0'', demo_dispatcher [] 1 0 [''g0'']),
        (demo_dispatcher [] 1 0 [''g0''], Ev_challenge (demo_challenge ''a'' ''standard'' 5),
         demo_dispatcher [demo_challenge ''a'' ''standard'' 5] 1 0 [''g0'']),
        (demo_dispatcher [demo_challenge ''a'' ''standard'' 5] 1 0 [''g0''],
         Ev_challenge (demo_challenge ''b'' ''standard'' 9),
         demo_dispatcher [demo_challenge ''b'' ''standard'' 9, demo_challenge ''a'' ''standard'' 5]
           1 0 [''g0'']),
        (demo_dispatcher [demo_challenge ''b'' ''standard'' 9, demo_challenge ''a'' ''standard'' 5]
           1 0 [''g0''],
         Ev_challenge (demo_challenge ''c'' ''standard'' 5),
         demo_dispatcher ?q 1 0 [''g0''])]"
  have run: "start demo_li demo_model (demo_config (Some ''best'') 1) ?evs 0
               = (?ps, Inr (demo_dispatcher ?q 1 0 [''g0'']))"
    by (simp add: start_def iteration_def on_event_def demo_defs)
  have cc: "challenge (demo_config (Some ''best'') 1) = Some (demo_policy (Some ''best'') 1)"
    by (simp add: demo_config_def)
  have best: "(case sort_by (demo_policy (Some ''best'') 1)
        of None \<Rightarrow> ''best'' | Some v \<Rightarrow> v) = ''best''"
    by (simp add: demo_policy_def)
  have nt: "Ev_terminated \<notin> set ?evs" by simp
  have sup: "[c. Ev_challenge c \<leftarrow> ?evs, is_supported demo_model c
        (demo_policy (Some ''best'') 1)]
      = [demo_challenge ''a'' ''standard'' 5, demo_challenge ''b'' ''standard'' 9,
         demo_challenge ''c'' ''standard'' 5]"
    by (simp add: demo_defs)
  have sc: "map (score demo_model) ?q = [9, 5, 5]"
    by (simp add: demo_defs)
  from best_first_sorted_stable [OF run cc best] nt
  have "sorted_wrt (\<lambda>a b. score demo_model b \<le> score demo_model a)
          (challenge_queue (demo_dispatcher ?q 1 0 [''g0'']))"
    and "suffix (filter (\<lambda>x. score demo_model x = 5) (challenge_queue (demo_dispatcher ?q 1 0 [''g0''])))
          (filter (\<lambda>x. score demo_model x = 5) [c. Ev_challenge c \<leftarrow> ?evs, is_supported demo_model c
        (demo_policy (Some ''best'') 1)])"
    by simp_all
  then have "sorted_wrt (\<lambda>a b. score demo_model b \<le> score demo_model a) ?q"
    and "suffix (filter (\<lambda>x. score demo_model x = 5) ?q)
          (filter (\<lambda>x. score demo_model x = 5)
             [demo_challenge ''a'' ''standard'' 5, demo_challenge ''b'' ''standard'' 9,
              demo_challenge ''c'' ''standard'' 5])"
    unfolding sup by (simp_all add: demo_dispatcher_def)
  with run sc show ?thesis by (intro conjI)
qed

theorem best_first_sorted_stable_counterexample:
  "snd (start demo_li demo_model (demo_config (Some ''best'') 1)
        [Ev_gameStart ''g0'', Ev_challenge (demo_challenge ''a'' ''standard'' 5),
         Ev_challenge (demo_challenge ''b'' ''standard'' 9),
         Ev_challenge (demo_challenge ''c'' ''standard'' 5)] 0)
     = Inr (demo_dispatcher [demo_challenge ''b'' ''standard'' 9, demo_challenge ''a'' ''standard'' 5,
                             demo_challenge ''c'' ''standard'' 5] 1 0 [''g0''])
   \<and> map (score demo_model)
        (challenge_queue
           (demo_dispatcher [demo_challenge ''b'' ''standard'' 9, demo_challenge ''a'' ''standard'' 5,
                             demo_challenge ''c'' ''standard'' 5] 1 0 [''g0''])) = [9, 5, 5]
   \<and> \<not> (score demo_model (demo_challenge ''c'' ''standard'' 5)
          < score demo_model (demo_challenge ''a'' ''standard'' 5))"
  by (simp add: start_def iteration_def on_event_def demo_defs)

text \<open>
  Claim C8. When \<^verbatim>\<open>li.accept_challenge\<close> raises an \<open>HTTPError\<close> in the admission-control
  loop, status 404 drops the challenge: the loop goes on with the rest of the queue and
  unchanged counters; any other status leaves the loop with that error. (After a
  successful call the loop goes on with \<open>queued_processes\<close> incremented.) When
  \<^verbatim>\<open>li.decline_challenge\<close> raises an \<open>HTTPError\<close> for an unsupported challenge, status 404
  is ignored and any other status is raised. An error raised by the event or by the
  admission-control loop ends the loop of \<open>start\<close> with that error.
\<close>

theorem not_found_swallowed_others_fatal:
  "(queued_processes d + busy_processes d < max_games
      \<and> accept_challenge l (challenge_id c) (world d) = (Some (HTTPError code), w)
     \<longrightarrow> drain l max_games (c # rest) d
          = (if code = 404 then drain l max_games rest (d\<lparr>world := w\<rparr>)
             else Inl (HTTPError code)))
   \<and> (queued_processes d + busy_processes d < max_games
      \<and> accept_challenge l (challenge_id c) (world d) = (None, w)
     \<longrightarrow> drain l max_games (c # rest) d
          = drain l max_games rest (d\<lparr>world := w, queued_processes := queued_processes d + 1\<rparr>))
   \<and> (\<not> is_supported m c cc
      \<and> decline_challenge l (challenge_id c) (world d) = (Some (HTTPError code), w)
     \<longrightarrow> on_event l m cc (Ev_challenge c) d
          = (if code = 404 then Inr (d\<lparr>world := w\<rparr>) else Inl (HTTPError code)))
   \<and> (event \<noteq> Ev_terminated
      \<and> (on_event l m cc event d = Inl e
          \<or> (\<exists>d1. on_event l m cc event d = Inr d1
                 \<and> drain l max_games (challenge_queue d1) d1 = Inl e))
     \<longrightarrow> start_loop l m cc max_games (event # events) d = ([], Inl e))"
  by (auto simp: on_event_def iteration_def)

theorem not_found_swallowed_others_fatal_witness:
  "accept_challenge demo_li (challenge_id (demo_challenge ''withdrawn'' ''standard'' 5))
       (world (demo_dispatcher [] 0 0 [])) = (Some (HTTPError 404), 0)
   \<and> drain demo_li 1 [demo_challenge ''withdrawn'' ''standard'' 5, demo_challenge ''a'' ''standard'' 5]
        (demo_dispatcher [] 0 0 [])
      = drain demo_li 1 [demo_challenge ''a'' ''standard'' 5] (demo_dispatcher [] 0 0 [])
   \<and> drain demo_li 1 [demo_challenge ''a'' ''standard'' 5] (demo_dispatcher [] 0 0 [])
      = Inr (demo_dispatcher [] 0 1 [])
   \<and> accept_challenge demo_li (challenge_id (demo_challenge ''forbidden'' ''standard'' 5))
       (world (demo_dispatcher [] 0 0 [])) = (Some (HTTPError 403), 0)
   \<and> drain demo_li 1 [demo_challenge ''forbidden'' ''standard'' 5] (demo_dispatcher [] 0 0 [])
      = Inl (HTTPError 403)
   \<and> start_loop demo_li demo_model (demo_policy (Some ''first'') 1) 1
        [Ev_challenge (demo_challenge ''forbidden'' ''standard'' 5), Ev_ping] (demo_dispatcher [] 0 0 [])
      = ([], Inl (HTTPError 403))
   \<and> on_event demo_li demo_model (demo_policy (Some ''first'') 1)
        (Ev_challenge (demo_challenge ''withdrawn'' ''atomic'' 5)) (demo_dispatcher [] 0 0 [])
      = Inr (demo_dispatcher [] 0 0 [])
   \<and> on_event demo_li demo_model (demo_policy (Some ''first'') 1)
        (Ev_challenge (demo_challenge ''forbidden'' ''atomic'' 5)) (demo_dispatcher [] 0 0 [])
      = Inl (HTTPError 403)"
proof -
  let ?d = "demo_dispatcher [] 0 0 []"
  let ?cc = "demo_policy (Some ''first'') 1"
  have a404: "accept_challenge demo_li (challenge_id (demo_challenge ''withdrawn'' ''standard'' 5))
       (world ?d) = (Some (HTTPError 404), 0)"
    and a403: "accept_challenge demo_li (challenge_id (demo_challenge ''forbidden'' ''standard'' 5))
       (world ?d) = (Some (HTTPError 403), 0)"
    and d404: "decline_challenge demo_li (challenge_id (demo_challenge ''withdrawn'' ''atomic'' 5))
       (world ?d) = (Some (HTTPError 404), 0)"
    and d403: "decline_challenge demo_li (challenge_id (demo_challenge ''forbidden'' ''atomic'' 5))
       (world ?d) = (Some (HTTPError 403), 0)"
    and free: "queued_processes ?d + busy_processes ?d < 1"
    and unsup: "\<not> is_supported demo_model (demo_challenge ''withdrawn'' ''atomic'' 5) ?cc"
      "\<not> is_supported demo_model (demo_challenge ''forbidden'' ''atomic'' 5) ?cc"
    and same: "?d\<lparr>world := 0\<rparr> = ?d"
    by (simp_all add: demo_defs)
  have rest: "drain demo_li 1 [demo_challenge ''a'' ''standard'' 5] ?d = Inr (demo_dispatcher [] 0 1 [])"
    by (simp add: demo_defs)
  note t1 = not_found_swallowed_others_fatal [of ?d 1 demo_li "demo_challenge ''withdrawn'' ''standard'' 5"
      404 0 "[demo_challenge ''a'' ''standard'' 5]" demo_model ?cc Ev_ping KeyError "[]"]
  note t2 = not_found_swallowed_others_fatal [of ?d 1 demo_li "demo_challenge ''forbidden'' ''standard'' 5"
      403 0 "[]" demo_model ?cc "Ev_challenge (demo_challenge ''forbidden'' ''standard'' 5)"
      "HTTPError 403" "[Ev_ping]"]
  note t3 = not_found_swallowed_others_fatal [of ?d 1 demo_li "demo_challenge ''withdrawn'' ''atomic'' 5"
      404 0 "[]" demo_model ?cc Ev_ping KeyError "[]"]
  note t4 = not_found_swallowed_others_fatal [of ?d 1 demo_li "demo_challenge ''forbidden'' ''atomic'' 5"
      403 0 "[]" demo_model ?cc Ev_ping KeyError "[]"]
  from t1 a404 free same
  have c1: "drain demo_li 1 [demo_challenge ''withdrawn'' ''standard'' 5, demo_challenge ''a'' ''standard'' 5] ?d
      = drain demo_li 1 [demo_challenge ''a'' ''standard'' 5] ?d"
    by simp
  from t2 a403 free
  have c2: "drain demo_li 1 [demo_challenge ''forbidden'' ''standard'' 5] ?d = Inl (HTTPError 403)"
    by simp
  have c3: "start_loop demo_li demo_model ?cc 1
        [Ev_challenge (demo_challenge ''forbidden'' ''standard'' 5), Ev_ping] ?d = ([], Inl (HTTPError 403))"
  proof (rule t2 [THEN conjunct2, THEN conjunct2, THEN conjunct2, THEN mp], intro conjI disjI2)
    show "Ev_challenge (demo_challenge ''forbidden'' ''standard'' 5) \<noteq> Ev_terminated"
      by simp
    show "\<exists>d1. on_event demo_li demo_model ?cc
                 (Ev_challenge (demo_challenge ''forbidden'' ''standard'' 5)) ?d = Inr d1
              \<and> drain demo_li 1 (challenge_queue d1) d1 = Inl (HTTPError 403)"
      by (rule exI [of _ "demo_dispatcher [demo_challenge ''forbidden'' ''standard'' 5] 0 0 []"])
         (simp add: on_event_def demo_defs)
  qed
  from t3 d404 unsup same
  have c4: "on_event demo_li demo_model ?cc (Ev_challenge (demo_challenge ''withdrawn'' ''atomic'' 5)) ?d = Inr ?d"
    by simp
  from t4 d403 unsup
  have c5: "on_event demo_li demo_model ?cc (Ev_challenge (demo_challenge ''forbidden'' ''atomic'' 5)) ?d
      = Inl (HTTPError 403)"
    by simp
  from a404 c1 rest a403 c2 c3 c4 c5 show ?thesis by (intro conjI)
qed

section \<open>Properties of the entry point\<close>

text \<open>
  Claim C9. Whenever \<open>serve_lichess\<close> calls \<open>start\<close>, the configuration it passes has
  \<^verbatim>\<open>abort_time = 20\<close> and the challenge policy \<^verbatim>\<open>sort_by = 'first'\<close>,
  \<^verbatim>\<open>variants = ['standard']\<close>, \<^verbatim>\<open>accept_bot = True\<close>, \<^verbatim>\<open>min_increment = 0\<close>,
  \<^verbatim>\<open>max_increment = 180\<close>, with \<^verbatim>\<open>concurrency\<close>, \<^verbatim>\<open>time_controls\<close> and \<^verbatim>\<open>modes\<close> as the
  caller gave them; under it a supported challenge is appended to the queue and the queue
  is never sorted.
\<close>

theorem serve_lichess_policy:
  assumes "serve_lichess l m concurrency_arg time_controls_arg modes_arg upgrade url_arg events w
             = Started cfg outcome"
  shows "abort_time cfg = Some 20
       \<and> challenge cfg = Some
            \<lparr>concurrency = Some concurrency_arg, sort_by = Some ''first'',
             accept_bot = Some True, max_increment = Some 180, min_increment = Some 0,
             variants = Some [''standard''], time_controls = Some time_controls_arg,
             modes = Some modes_arg\<rparr>
       \<and> (\<exists>w'. outcome = start l m cfg events w')
       \<and> (\<forall>cc c d. challenge cfg = Some cc \<and> is_supported m c cc
            \<longrightarrow> on_event l m cc (Ev_challenge c) d
                  = Inr (d\<lparr>challenge_queue := challenge_queue d @ [c]\<rparr>))"
proof -
  from assms have cfg: "cfg = CONFIG url_arg concurrency_arg time_controls_arg modes_arg"
    and out: "\<exists>w'. outcome = start l m cfg events w'"
    by (auto simp: serve_lichess_def Let_def split: prod.splits sum.splits if_splits)
  from cfg out show ?thesis
    by (auto simp: CONFIG_def on_event_def)
qed

theorem serve_lichess_policy_witness:
  "serve_lichess demo_li demo_model 2 [''bullet'', ''blitz''] [''casual'', ''rated''] False
       ''https://lichess.org/'' [Ev_terminated] 0
     = Started (CONFIG ''https://lichess.org/'' 2 [''bullet'', ''blitz''] [''casual'', ''rated''])
         ([], Inr (demo_dispatcher [] 0 0 []))
   \<and> abort_time (CONFIG ''https://lichess.org/'' 2 [''bullet'', ''blitz''] [''casual'', ''rated''])
       = Some 20
   \<and> challenge (CONFIG ''https://lichess.org/'' 2 [''bullet'', ''blitz''] [''casual'', ''rated''])
       = Some
            \<lparr>concurrency = Some 2, sort_by = Some ''first'',
             accept_bot = Some True, max_increment = Some 180, min_increment = Some 0,
             variants = Some [''standard''], time_controls = Some [''bullet'', ''blitz''],
             modes = Some [''casual'', ''rated'']\<rparr>"
proof -
  have run: "serve_lichess demo_li demo_model 2 [''bullet'', ''blitz''] [''casual'', ''rated''] False
       ''https://lichess.org/'' [Ev_terminated] 0
     = Started (CONFIG ''https://lichess.org/'' 2 [''bullet'', ''blitz''] [''casual'', ''rated''])
         ([], Inr (demo_dispatcher [] 0 0 []))"
    by (simp add: serve_lichess_def start_def CONFIG_def demo_defs)
  from serve_lichess_policy [OF run] run show ?thesis by simp
qed

section \<open>Properties of the game worker\<close>

lemma is_engine_move_state [simp]:
  "is_engine_move (g\<lparr>state := upd\<rparr>) moves = is_engine_move g moves"
  by (simp add: is_engine_move_def is_white_to_move_def)

text \<open>
  Claim C5. Let a line of the game stream decode to a dict of type \<^verbatim>\<open>gameState\<close>. If the
  board advanced by the newest move is not game-over, the parity of the move list makes
  it the engine's turn, and the engine returns a move, then the worker makes exactly one
  call of \<^verbatim>\<open>engine.move\<close> (with the new board and the clock fields of the update) and
  exactly one call of \<^verbatim>\<open>li.make_move\<close> (with that move): the state of the world afterwards
  is the one \<^verbatim>\<open>li.make_move\<close> leaves, with the deadline reset by \<^verbatim>\<open>abort_in\<close> when the
  call returned, and what the call raised is raised. If the board cannot be advanced, or
  is game-over, or it is the opponent's turn, the worker makes no call and the world is
  as before; the game holds the update and the board the new position. If the engine
  raises, the request is the only call.
\<close>

theorem gameState_engine_calls:
  assumes "upd = JObj kvs" and "getitem upd ''type'' = Inr (JStr ''gameState'')"
  shows "(\<forall>board moves best_move w.
            advance (chess deps) (cur_board s) upd = Inr (board, moves)
            \<and> \<not> is_game_over (chess deps) board \<and> is_engine_move (cur_game s) moves
            \<and> engine_move (engine deps) board (clock_fields kvs) (cur_world s) = (Inr best_move, w)
            \<longrightarrow> calls (snd (on_chunk deps config (Line upd) s))
                  = calls s @ [Engine_move board (clock_fields kvs),
                               Make_move (game_id (cur_game s)) best_move]
                \<and> length (filter is_Engine_move (calls (snd (on_chunk deps config (Line upd) s))))
                  = length (filter is_Engine_move (calls s)) + 1
                \<and> length (filter is_Make_move (calls (snd (on_chunk deps config (Line upd) s))))
                  = length (filter is_Make_move (calls s)) + 1
                \<and> (\<forall>raised w'.
                      make_move (li deps) (game_id (cur_game s)) best_move w = (raised, w')
                      \<longrightarrow> on_chunk deps config (Line upd) s
                            = (raised,
                               s\<lparr>cur_game := (cur_game s)\<lparr>state := upd\<rparr>,
                                 cur_board := board,
                                 cur_world :=
                                   (if raised = None
                                    then abort_in (model deps)
                                           (case abort_time config of None \<Rightarrow> 20 | Some t \<Rightarrow> t)
                                           ((cur_game s)\<lparr>state := upd\<rparr>) w'
                                    else w'),
                                 calls := calls s @ [Engine_move board (clock_fields kvs),
                                                     Make_move (game_id (cur_game s)) best_move]\<rparr>)))
       \<and> ((\<forall>board moves. advance (chess deps) (cur_board s) upd = Inr (board, moves)
              \<longrightarrow> is_game_over (chess deps) board \<or> \<not> is_engine_move (cur_game s) moves)
            \<longrightarrow> calls (snd (on_chunk deps config (Line upd) s)) = calls s)
       \<and> (\<forall>board moves.
            advance (chess deps) (cur_board s) upd = Inr (board, moves)
            \<and> (is_game_over (chess deps) board \<or> \<not> is_engine_move (cur_game s) moves)
            \<longrightarrow> on_chunk deps config (Line upd) s
                  = (None, s\<lparr>cur_game := (cur_game s)\<lparr>state := upd\<rparr>, cur_board := board\<rparr>))
       \<and> (\<forall>e. advance (chess deps) (cur_board s) upd = Inl e
            \<longrightarrow> on_chunk deps config (Line upd) s
                  = (Some e, s\<lparr>cur_game := (cur_game s)\<lparr>state := upd\<rparr>\<rparr>))
       \<and> (\<forall>board moves e w.
            advance (chess deps) (cur_board s) upd = Inr (board, moves)
            \<and> \<not> is_game_over (chess deps) board \<and> is_engine_move (cur_game s) moves
            \<and> engine_move (engine deps) board (clock_fields kvs) (cur_world s) = (Inl e, w)
            \<longrightarrow> on_chunk deps config (Line upd) s
                  = (Some e,
                     s\<lparr>cur_game := (cur_game s)\<lparr>state := upd\<rparr>, cur_board := board,
                       cur_world := w,
                       calls := calls s @ [Engine_move board (clock_fields kvs)]\<rparr>))"
proof -
  from assms have t: "truthy upd" by (cases kvs) auto
  have oc: "on_chunk deps config (Line upd) s = on_gameState deps config upd s"
    using assms(2) t by (simp add: on_chunk_def)
  show ?thesis
    unfolding oc
    by (auto simp: on_gameState_def Let_def assms(1) split: sum.splits prod.splits option.splits)
qed

theorem gameState_engine_calls_witness:
  "getitem (demo_gameState ''e2e4'') ''type'' = Inr (JStr ''gameState'')
   \<and> advance (chess demo_deps) (cur_board (demo_session [] 0)) (demo_gameState ''e2e4'')
       = Inr ([''startpos'', ''e2e4''], [''e2e4''])
   \<and> \<not> is_game_over (chess demo_deps) [''startpos'', ''e2e4'']
   \<and> is_engine_move (cur_game (demo_session [] 0)) [''e2e4'']
   \<and> calls (snd (on_chunk demo_deps (demo_config (Some ''first'') 1)
                   (Line (demo_gameState ''e2e4'')) (demo_session [] 0)))
       = [Engine_move [''startpos'', ''e2e4''] [(''wtime'', JInt 60000), (''btime'', JInt 59000)],
          Make_move ''g1'' ''e7e5'']
   \<and> advance (chess demo_deps) (cur_board (demo_session ''e2e4'' 0)) (demo_gameState ''e2e4 e7e5'')
       = Inr ([''startpos'', ''e2e4'', ''e7e5''], [''e2e4'', ''e7e5''])
   \<and> \<not> is_engine_move (cur_game (demo_session ''e2e4'' 0)) [''e2e4'', ''e7e5'']
   \<and> calls (snd (on_chunk demo_deps (demo_config (Some ''first'') 1)
                   (Line (demo_gameState ''e2e4 e7e5'')) (demo_session ''e2e4'' 0)))
       = []
   \<and> make_move (li demo_deps) ''g1'' ''e7e5'' 0 = (None, 10)
   \<and> on_chunk demo_deps (demo_config (Some ''first'') 1)
        (Line (demo_gameState ''e2e4'')) (demo_session [] 0)
       = (None,
          (demo_session ''e2e4'' 1010)
            \<lparr>calls := [Engine_move [''startpos'', ''e2e4'']
                         [(''wtime'', JInt 60000), (''btime'', JInt 59000)],
                       Make_move ''g1'' ''e7e5'']\<rparr>)
   \<and> on_chunk demo_deps (demo_config (Some ''first'') 1)
        (Line (demo_gameState ''e2e4 e7e5'')) (demo_session ''e2e4'' 0)
       = (None, demo_session ''e2e4 e7e5'' 0)"
proof -
  let ?cfg = "demo_config (Some ''first'') 1"
  have u1: "demo_gameState ''e2e4'' = JObj [(''type'', JStr ''gameState''), (''moves'', JStr ''e2e4''),
           (''wtime'', JInt 60000), (''btime'', JInt 59000), (''status'', JStr ''started'')]"
    and u2: "demo_gameState ''e2e4 e7e5'' = JObj [(''type'', JStr ''gameState''),
           (''moves'', JStr ''e2e4 e7e5''),
           (''wtime'', JInt 60000), (''btime'', JInt 59000), (''status'', JStr ''started'')]"
    by (simp_all add: demo_gameState_def)
  have ty1: "getitem (demo_gameState ''e2e4'') ''type'' = Inr (JStr ''gameState'')"
    and ty2: "getitem (demo_gameState ''e2e4 e7e5'') ''type'' = Inr (JStr ''gameState'')"
    by (simp_all add: demo_gameState_def)
  have adv1: "advance (chess demo_deps) (cur_board (demo_session [] 0)) (demo_gameState ''e2e4'')
       = Inr ([''startpos'', ''e2e4''], [''e2e4''])"
    and adv2: "advance (chess demo_deps) (cur_board (demo_session ''e2e4'' 0)) (demo_gameState ''e2e4 e7e5'')
       = Inr ([''startpos'', ''e2e4'', ''e7e5''], [''e2e4'', ''e7e5''])"
    by code_simp+
  have live: "\<not> is_game_over (chess demo_deps) [''startpos'', ''e2e4'']"
    and turn1: "is_engine_move (cur_game (demo_session [] 0)) [''e2e4'']"
    and turn2: "\<not> is_engine_move (cur_game (demo_session ''e2e4'' 0)) [''e2e4'', ''e7e5'']"
    by code_simp+
  have eng: "engine_move (engine demo_deps) [''startpos'', ''e2e4'']
        (clock_fields [(''type'', JStr ''gameState''), (''moves'', JStr ''e2e4''),
           (''wtime'', JInt 60000), (''btime'', JInt 59000), (''status'', JStr ''started'')])
        (cur_world (demo_session [] 0)) = (Inr ''e7e5'', 0)"
    by (simp add: demo_defs)
  have clk: "clock_fields [(''type'', JStr ''gameState''), (''moves'', JStr ''e2e4''),
           (''wtime'', JInt 60000), (''btime'', JInt 59000), (''status'', JStr ''started'')]
       = [(''wtime'', JInt 60000), (''btime'', JInt 59000)]"
    by (simp add: clock_fields_def List.map_filter_def)
  have gid: "game_id (cur_game (demo_session [] 0)) = ''g1''" and c0: "calls (demo_session [] 0) = []"
    and c0': "calls (demo_session ''e2e4'' 0) = []"
    by (simp_all add: demo_session_def demo_game_def)
  note engine_turn =
    gameState_engine_calls [OF u1 ty1, of demo_deps "demo_session [] 0" ?cfg, THEN conjunct1,
      rule_format, of "[''startpos'', ''e2e4'']" "[''e2e4'']" "''e7e5''" 0]
  from adv1 live turn1 eng
  have "calls (snd (on_chunk demo_deps ?cfg (Line (demo_gameState ''e2e4'')) (demo_session [] 0)))
       = calls (demo_session [] 0)
         @ [Engine_move [''startpos'', ''e2e4'']
              (clock_fields [(''type'', JStr ''gameState''), (''moves'', JStr ''e2e4''),
                 (''wtime'', JInt 60000), (''btime'', JInt 59000), (''status'', JStr ''started'')]),
            Make_move (game_id (cur_game (demo_session [] 0))) ''e7e5'']"
    by (intro engine_turn [THEN conjunct1] conjI)
  then have r1: "calls (snd (on_chunk demo_deps ?cfg (Line (demo_gameState ''e2e4'')) (demo_session [] 0)))
       = [Engine_move [''startpos'', ''e2e4''] [(''wtime'', JInt 60000), (''btime'', JInt 59000)],
          Make_move ''g1'' ''e7e5'']"
    unfolding clk gid c0 by simp
  note other_turn =
    gameState_engine_calls [OF u2 ty2, of demo_deps "demo_session ''e2e4'' 0" ?cfg, THEN conjunct2,
      THEN conjunct1, rule_format]
  have "calls (snd (on_chunk demo_deps ?cfg (Line (demo_gameState ''e2e4 e7e5''))
                  (demo_session ''e2e4'' 0))) = calls (demo_session ''e2e4'' 0)"
  proof (rule other_turn)
    fix board moves
    assume "advance (chess demo_deps) (cur_board (demo_session ''e2e4'' 0))
              (demo_gameState ''e2e4 e7e5'') = Inr (board, moves)"
    with adv2 have "moves = [''e2e4'', ''e7e5'']" by simp
    with turn2 show "is_game_over (chess demo_deps) board
        \<or> \<not> is_engine_move (cur_game (demo_session ''e2e4'' 0)) moves"
      by simp
  qed
  then have r2: "calls (snd (on_chunk demo_deps ?cfg (Line (demo_gameState ''e2e4 e7e5''))
                  (demo_session ''e2e4'' 0))) = []"
    unfolding c0' by simp
  have mk: "make_move (li demo_deps) (game_id (cur_game (demo_session [] 0))) ''e7e5'' 0 = (None, 10)"
    by (simp add: demo_defs)
  then have mk': "make_move (li demo_deps) ''g1'' ''e7e5'' 0 = (None, 10)"
    unfolding gid .
  have hyps: "advance (chess demo_deps) (cur_board (demo_session [] 0)) (demo_gameState ''e2e4'')
        = Inr ([''startpos'', ''e2e4''], [''e2e4''])
      \<and> \<not> is_game_over (chess demo_deps) [''startpos'', ''e2e4'']
      \<and> is_engine_move (cur_game (demo_session [] 0)) [''e2e4'']
      \<and> engine_move (engine demo_deps) [''startpos'', ''e2e4'']
          (clock_fields [(''type'', JStr ''gameState''), (''moves'', JStr ''e2e4''),
             (''wtime'', JInt 60000), (''btime'', JInt 59000), (''status'', JStr ''started'')])
          (cur_world (demo_session [] 0)) = (Inr ''e7e5'', 0)"
    using adv1 live turn1 eng by (intro conjI)
  note full = engine_turn [OF hyps, THEN conjunct2, THEN conjunct2, THEN conjunct2, rule_format,
      OF mk]
  have r3: "on_chunk demo_deps ?cfg (Line (demo_gameState ''e2e4'')) (demo_session [] 0)
       = (None,
          (demo_session ''e2e4'' 1010)
            \<lparr>calls := [Engine_move [''startpos'', ''e2e4'']
                         [(''wtime'', JInt 60000), (''btime'', JInt 59000)],
                       Make_move ''g1'' ''e7e5'']\<rparr>)"
    using full
    by (simp add: demo_defs clock_fields_def List.map_filter_def str_split_def is_space_def)
  have hyps2: "advance (chess demo_deps) (cur_board (demo_session ''e2e4'' 0))
          (demo_gameState ''e2e4 e7e5'')
        = Inr ([''startpos'', ''e2e4'', ''e7e5''], [''e2e4'', ''e7e5''])
      \<and> (is_game_over (chess demo_deps) [''startpos'', ''e2e4'', ''e7e5'']
          \<or> \<not> is_engine_move (cur_game (demo_session ''e2e4'' 0)) [''e2e4'', ''e7e5''])"
    using adv2 turn2 by simp
  note waiting =
    gameState_engine_calls [OF u2 ty2, of demo_deps "demo_session ''e2e4'' 0" ?cfg,
      THEN conjunct2, THEN conjunct2, THEN conjunct1, rule_format, OF hyps2]
  have r4: "on_chunk demo_deps ?cfg (Line (demo_gameState ''e2e4 e7e5'')) (demo_session ''e2e4'' 0)
       = (None, demo_session ''e2e4 e7e5'' 0)"
    using waiting
    by (simp add: demo_defs str_split_def is_space_def)
  from ty1 adv1 live turn1 r1 adv2 turn2 r2 mk' r3 r4 show ?thesis by (intro conjI)
qed

text \<open>
  Claim C10. A blank line of the game stream is handled as a ping and as nothing else.
  When \<^verbatim>\<open>game.should_abort_now()\<close> holds, \<^verbatim>\<open>li.abort\<close> is called for the game: the state of
  the world afterwards is the one that call leaves, and what it raised is raised. When it
  does not hold, nothing happens. The game and the board are left as they were.
\<close>

theorem blank_line_is_ping:
  "on_chunk deps config Blank s = on_ping deps s
   \<and> (should_abort_now (model deps) (cur_game s) (cur_world s)
        \<longrightarrow> calls (snd (on_chunk deps config Blank s)) = calls s @ [Abort (game_id (cur_game s))])
   \<and> (\<not> should_abort_now (model deps) (cur_game s) (cur_world s)
        \<longrightarrow> on_chunk deps config Blank s = (None, s))
   \<and> cur_game (snd (on_chunk deps config Blank s)) = cur_game s
   \<and> cur_board (snd (on_chunk deps config Blank s)) = cur_board s
   \<and> (\<forall>raised w.
        should_abort_now (model deps) (cur_game s) (cur_world s)
        \<and> abort (li deps) (game_id (cur_game s)) (cur_world s) = (raised, w)
        \<longrightarrow> on_chunk deps config Blank s
              = (raised, s\<lparr>cur_world := w, calls := calls s @ [Abort (game_id (cur_game s))]\<rparr>))"
  by (simp add: on_chunk_def on_ping_def split: prod.splits)

theorem blank_line_is_ping_witness:
  "should_abort_now (model demo_deps) (cur_game (demo_session ''e2e4'' 21))
       (cur_world (demo_session ''e2e4'' 21))
   \<and> calls (snd (on_chunk demo_deps (demo_config (Some ''first'') 1) Blank (demo_session ''e2e4'' 21)))
       = [Abort ''g1'']
   \<and> \<not> should_abort_now (model demo_deps) (cur_game (demo_session ''e2e4'' 0))
       (cur_world (demo_session ''e2e4'' 0))
   \<and> on_chunk demo_deps (demo_config (Some ''first'') 1) Blank (demo_session ''e2e4'' 0)
       = (None, demo_session ''e2e4'' 0)
   \<and> calls (snd (stream_loop demo_deps (demo_config (Some ''first'') 1) [Blank, Blank]
                   (demo_session ''e2e4'' 21)))
       = [Abort ''g1'', Abort ''g1'']
   \<and> abort (li demo_deps) ''g1'' 21 = (None, 121)
   \<and> on_chunk demo_deps (demo_config (Some ''first'') 1) Blank (demo_session ''e2e4'' 21)
       = (None, (demo_session ''e2e4'' 121)\<lparr>calls := [Abort ''g1'']\<rparr>)"
proof -
  have late: "should_abort_now (model demo_deps) (cur_game (demo_session ''e2e4'' 21))
       (cur_world (demo_session ''e2e4'' 21))"
    and early: "\<not> should_abort_now (model demo_deps) (cur_game (demo_session ''e2e4'' 0))
       (cur_world (demo_session ''e2e4'' 0))"
    and gid: "game_id (cur_game (demo_session ''e2e4'' 21)) = ''g1''"
    and c0: "calls (demo_session ''e2e4'' 21) = []"
    by (simp_all add: demo_defs)
  have loop: "calls (snd (stream_loop demo_deps (demo_config (Some ''first'') 1) [Blank, Blank]
                   (demo_session ''e2e4'' 21))) = [Abort ''g1'', Abort ''g1'']"
    by code_simp
  from blank_line_is_ping [of demo_deps "demo_config (Some ''first'') 1" "demo_session ''e2e4'' 21"]
    late
  have "calls (snd (on_chunk demo_deps (demo_config (Some ''first'') 1) Blank (demo_session ''e2e4'' 21)))
       = calls (demo_session ''e2e4'' 21) @ [Abort (game_id (cur_game (demo_session ''e2e4'' 21)))]"
    by blast
  then have r1: "calls (snd (on_chunk demo_deps (demo_config (Some ''first'') 1) Blank
                   (demo_session ''e2e4'' 21))) = [Abort ''g1'']"
    unfolding gid c0 by simp
  from blank_line_is_ping [of demo_deps "demo_config (Some ''first'') 1" "demo_session ''e2e4'' 0"]
    early
  have r2: "on_chunk demo_deps (demo_config (Some ''first'') 1) Blank (demo_session ''e2e4'' 0)
       = (None, demo_session ''e2e4'' 0)"
    by blast
  have ab: "abort (li demo_deps) (game_id (cur_game (demo_session ''e2e4'' 21)))
        (cur_world (demo_session ''e2e4'' 21)) = (None, 121)"
    by (simp add: demo_defs)
  then have ab': "abort (li demo_deps) ''g1'' 21 = (None, 121)"
    by (simp add: demo_defs)
  have both: "should_abort_now (model demo_deps) (cur_game (demo_session ''e2e4'' 21))
        (cur_world (demo_session ''e2e4'' 21))
      \<and> abort (li demo_deps) (game_id (cur_game (demo_session ''e2e4'' 21)))
          (cur_world (demo_session ''e2e4'' 21)) = (None, 121)"
    using late ab by (intro conjI)
  note applied =
    blank_line_is_ping [of demo_deps "demo_config (Some ''first'') 1" "demo_session ''e2e4'' 21",
      THEN conjunct2, THEN conjunct2, THEN conjunct2, THEN conjunct2, THEN conjunct2,
      rule_format, OF both]
  have r3: "on_chunk demo_deps (demo_config (Some ''first'') 1) Blank (demo_session ''e2e4'' 21)
       = (None, (demo_session ''e2e4'' 121)\<lparr>calls := [Abort ''g1'']\<rparr>)"
    using applied by (simp add: demo_defs)
  from late r1 early r2 loop ab' r3 show ?thesis by (intro conjI)
qed

text \<open>
  Claim C2 at two inputs. When \<^verbatim>\<open>li.get_game_stream\<close> raises an \<open>HTTPError\<close> with status 404,
  \<open>play_game\<close> gives up without any \<^verbatim>\<open>local_game_done\<close> event. When the stream of a game
  carries a \<^verbatim>\<open>gameState\<close> update with an empty move list, the body raises \<open>IndexError\<close>
  after its \<^verbatim>\<open>finally\<close> clause has put the event, the decorator calls the body again, and
  the second run puts a second event.
\<close>

theorem play_game_done_events_failing_inputs:
  "play_game 3 demo_deps ''gone'' demo_profile (demo_config (Some ''first'') 1) (0, [])
     = (Some (HTTPError 404), (1, []))
   \<and> play_game_body demo_deps ''aborted'' demo_profile (demo_config (Some ''first'') 1) (0, [])
     = (Some IndexError, (1, [Ev_local_game_done]))
   \<and> play_game 3 demo_deps ''aborted'' demo_profile (demo_config (Some ''first'') 1) (0, [])
     = (None, (2, [Ev_local_game_done, Ev_local_game_done]))"
  by code_simp

section \<open>Properties of the control stream consumer\<close>

lemma forward_raises:
  "forward ls q = (Some e, q') \<Longrightarrow> e = ValueError"
proof (induction ls arbitrary: q)
  case Nil
  then show ?case by simp
next
  case (Cons c ls)
  then show ?case by (cases c) auto
qed

lemma forward_appends:
  "\<exists>new. snd (forward ls q) = q @ new \<and> (Line Ev_terminated \<notin> set ls \<longrightarrow> Ev_terminated \<notin> set new)"
proof (induction ls arbitrary: q)
  case Nil
  then show ?case by simp
next
  case (Cons c ls)
  show ?case
  proof (cases c)
    case Blank
    from Cons.IH [of "q @ [Ev_ping]"] obtain new
      where "snd (forward ls (q @ [Ev_ping])) = (q @ [Ev_ping]) @ new"
        and "Line Ev_terminated \<notin> set ls \<longrightarrow> Ev_terminated \<notin> set new"
      by blast
    with Blank show ?thesis
      by (intro exI [of _ "Ev_ping # new"]) simp
  next
    case (Line ev)
    from Cons.IH [of "q @ [ev]"] obtain new
      where "snd (forward ls (q @ [ev])) = (q @ [ev]) @ new"
        and "Line Ev_terminated \<notin> set ls \<longrightarrow> Ev_terminated \<notin> set new"
      by blast
    with Line show ?thesis
      by (intro exI [of _ "ev # new"]) auto
  next
    case Undecodable
    then show ?thesis by simp
  qed
qed

lemma body_cases:
  "(get_event_stream l w = (Inr response, w1) \<and> forward (lines response) q = (None, q1)
      \<longrightarrow> watch_control_stream_body l (w, q)
           = (case ending response of
                None \<Rightarrow> (None, (w1, q1))
              | Some e \<Rightarrow> if is_connection_error e then (None, (w1, q1 @ [Ev_terminated]))
                          else (Some e, (w1, q1))))
   \<and> (get_event_stream l w = (Inr response, w1) \<and> forward (lines response) q = (Some e, q1)
      \<longrightarrow> watch_control_stream_body l (w, q) = (Some ValueError, (w1, q1)))
   \<and> (get_event_stream l w = (Inl e, w1)
      \<longrightarrow> watch_control_stream_body l (w, q) = (Some e, (w1, q)))"
  by (auto simp: watch_control_stream_body_def dest: forward_raises split: option.splits)

lemma body_terminated:
  assumes "case get_event_stream l w of
             (Inr response, w1) \<Rightarrow> Line Ev_terminated \<notin> set (lines response)
           | (Inl e, w1) \<Rightarrow> True"
    and "watch_control_stream_body l (w, q) = (raised, (w', q'))"
  shows "\<exists>new. Ev_terminated \<notin> set new
           \<and> (q' = q @ new \<or> (q' = q @ new @ [Ev_terminated] \<and> raised = None))"
proof (cases "get_event_stream l w")
  case (Pair r w1)
  show ?thesis
  proof (cases r)
    case (Inl e)
    with Pair assms(2) body_cases [of l w _ w1 q _ e] have "q' = q" by simp
    then show ?thesis by (intro exI [of _ "[]"]) simp
  next
    case (Inr response)
    with Pair assms(1) have clean: "Line Ev_terminated \<notin> set (lines response)" by simp
    obtain r1 q1 where fw: "forward (lines response) q = (r1, q1)"
      by (cases "forward (lines response) q")
    from forward_appends [of "lines response" q] fw clean obtain new
      where q1: "q1 = q @ new" and new: "Ev_terminated \<notin> set new"
      by auto
    show ?thesis
    proof (cases r1)
      case (Some e)
      with Pair Inr fw assms(2) body_cases [of l w response w1 q q1 e] have "q' = q1" by simp
      with q1 new show ?thesis by blast
    next
      case None
      with Pair Inr fw assms(2) body_cases [of l w response w1 q q1]
      have "(raised, (w', q'))
           = (case ending response of
                None \<Rightarrow> (None, (w1, q1))
              | Some e \<Rightarrow> if is_connection_error e then (None, (w1, q1 @ [Ev_terminated]))
                          else (Some e, (w1, q1)))"
        by simp
      then have "q' = q1 \<or> (q' = q1 @ [Ev_terminated] \<and> raised = None)"
        by (auto split: option.splits if_splits)
      with q1 new show ?thesis by auto
    qed
  qed
qed

lemma on_exception_terminated:
  assumes "\<forall>w. case get_event_stream l w of
                 (Inr response, w1) \<Rightarrow> Line Ev_terminated \<notin> set (lines response)
               | (Inl e, w1) \<Rightarrow> True"
    and "on_exception retries giveup (watch_control_stream_body l) (w, q) = (raised, (w', q'))"
  shows "\<exists>new. Ev_terminated \<notin> set new
           \<and> (q' = q @ new \<or> (q' = q @ new @ [Ev_terminated] \<and> raised = None))"
  using assms(2)
proof (induction retries arbitrary: w q)
  case 0
  from assms(1) have "case get_event_stream l w of
             (Inr response, w1) \<Rightarrow> Line Ev_terminated \<notin> set (lines response)
           | (Inl e, w1) \<Rightarrow> True" ..
  from body_terminated [OF this] 0 show ?case by simp
next
  case (Suc n)
  from assms(1) have clean: "case get_event_stream l w of
             (Inr response, w1) \<Rightarrow> Line Ev_terminated \<notin> set (lines response)
           | (Inl e, w1) \<Rightarrow> True" ..
  obtain r1 w1 q1 where b: "watch_control_stream_body l (w, q) = (r1, (w1, q1))"
    by (cases "watch_control_stream_body l (w, q)") auto
  from body_terminated [OF clean b] obtain new1 where n1: "Ev_terminated \<notin> set new1"
    and q1: "q1 = q @ new1 \<or> (q1 = q @ new1 @ [Ev_terminated] \<and> r1 = None)"
    by blast
  show ?case
  proof (cases r1)
    case None
    with Suc.prems b have "raised = None" "q' = q1" by simp_all
    with q1 n1 show ?thesis by blast
  next
    case (Some e)
    with q1 have q1': "q1 = q @ new1" by simp
    show ?thesis
    proof (cases "giveup e")
      case True
      with Suc.prems b Some have "q' = q1" by simp
      with q1' n1 show ?thesis by blast
    next
      case False
      with Suc.prems b Some
      have "on_exception n giveup (watch_control_stream_body l) (w1, q1) = (raised, (w', q'))"
        by simp
      from Suc.IH [OF this] obtain new2 where n2: "Ev_terminated \<notin> set new2"
        and q': "q' = q1 @ new2 \<or> (q' = q1 @ new2 @ [Ev_terminated] \<and> raised = None)"
        by blast
      from n1 n2 have "Ev_terminated \<notin> set (new1 @ new2)" by simp
      moreover from q' q1'
      have "q' = q @ (new1 @ new2) \<or> (q' = q @ (new1 @ new2) @ [Ev_terminated] \<and> raised = None)"
        by auto
      ultimately show ?thesis by blast
    qed
  qed
qed

lemma play_game_body_puts:
  assumes "play_game_body deps gid user_profile config (w, q) = (raised, (w', q'))"
  shows "q' = q \<or> q' = q @ [Ev_local_game_done]"
  using assms
  by (auto simp: play_game_body_def Let_def
      split: prod.splits sum.splits list.splits chunk.splits option.splits)

lemma play_game_puts:
  assumes "on_exception retries giveup (play_game_body deps gid user_profile config) (w, q)
             = (raised, (w', q'))"
  shows "\<exists>k. q' = q @ replicate k Ev_local_game_done"
  using assms
proof (induction retries arbitrary: w q)
  case 0
  from play_game_body_puts [of deps gid user_profile config w q raised w' q'] 0
  have "q' = q \<or> q' = q @ [Ev_local_game_done]" by simp
  then show ?case
  proof
    assume "q' = q"
    then show ?thesis by (intro exI [of _ 0]) simp
  next
    assume "q' = q @ [Ev_local_game_done]"
    then show ?thesis by (intro exI [of _ 1]) simp
  qed
next
  case (Suc n)
  obtain r1 w1 q1 where b: "play_game_body deps gid user_profile config (w, q) = (r1, (w1, q1))"
    by (cases "play_game_body deps gid user_profile config (w, q)") auto
  from play_game_body_puts [OF b] have "\<exists>k. q1 = q @ replicate k Ev_local_game_done"
  proof
    assume "q1 = q"
    then show ?thesis by (intro exI [of _ 0]) simp
  next
    assume "q1 = q @ [Ev_local_game_done]"
    then show ?thesis by (intro exI [of _ 1]) simp
  qed
  then obtain k1 where q1: "q1 = q @ replicate k1 Ev_local_game_done" ..
  have "q' = q1 \<or> on_exception n giveup (play_game_body deps gid user_profile config) (w1, q1)
             = (raised, (w', q'))"
    using Suc.prems b by (auto split: option.splits if_splits)
  then show ?case
  proof
    assume "q' = q1"
    with q1 show ?thesis by blast
  next
    assume "on_exception n giveup (play_game_body deps gid user_profile config) (w1, q1)
             = (raised, (w', q'))"
    from Suc.IH [OF this] obtain k2 where "q' = q1 @ replicate k2 Ev_local_game_done" ..
    with q1 have "q' = q @ replicate (k1 + k2) Ev_local_game_done"
      by (simp add: replicate_add)
    then show ?thesis ..
  qed
qed

text \<open>
  Claim C4, as amended. Assume the server never sends a line whose event is
  \<^verbatim>\<open>terminated\<close>. Then \<open>watch_control_stream\<close> puts at most one \<^verbatim>\<open>terminated\<close> event on the
  control queue, as the last event and only when it returns without an exception. One
  run of its body puts that event exactly when the iteration over the event stream
  raises a connectivity error (\<open>RemoteDisconnected\<close>, \<open>ChunkedEncodingError\<close>,
  \<open>ConnectionError\<close>, \<open>ProtocolError\<close>); when the stream ends normally, when another error is
  raised, when a line cannot be decoded, and when \<^verbatim>\<open>li.get_event_stream\<close> raises, it puts
  none. The only events that \<open>play_game\<close> puts are \<^verbatim>\<open>local_game_done\<close> events.
\<close>

theorem terminated_only_on_connection_error:
  assumes "\<forall>w. case get_event_stream l w of
                 (Inr response, w1) \<Rightarrow> Line Ev_terminated \<notin> set (lines response)
               | (Inl e, w1) \<Rightarrow> True"
  shows "(\<forall>w q raised w' q'.
            watch_control_stream retries l (w, q) = (raised, (w', q'))
            \<longrightarrow> (\<exists>new. Ev_terminated \<notin> set new
                   \<and> (q' = q @ new \<or> (q' = q @ new @ [Ev_terminated] \<and> raised = None))))
       \<and> (\<forall>w q response w1 q1.
            get_event_stream l w = (Inr response, w1) \<and> forward (lines response) q = (None, q1)
            \<longrightarrow> watch_control_stream_body l (w, q)
                 = (case ending response of
                      None \<Rightarrow> (None, (w1, q1))
                    | Some e \<Rightarrow> if is_connection_error e then (None, (w1, q1 @ [Ev_terminated]))
                                else (Some e, (w1, q1))))
       \<and> (\<forall>w q response w1 e q1.
            get_event_stream l w = (Inr response, w1) \<and> forward (lines response) q = (Some e, q1)
            \<longrightarrow> watch_control_stream_body l (w, q) = (Some ValueError, (w1, q1)))
       \<and> (\<forall>w q e w1.
            get_event_stream l w = (Inl e, w1)
            \<longrightarrow> watch_control_stream_body l (w, q) = (Some e, (w1, q)))
       \<and> (\<forall>n deps gid user_profile config w q raised w' q'.
            play_game n deps gid user_profile config (w, q) = (raised, (w', q'))
            \<longrightarrow> (\<exists>k. q' = q @ replicate k Ev_local_game_done))"
proof (intro conjI allI impI)
  fix w q raised w' q'
  assume "watch_control_stream retries l (w, q) = (raised, (w', q'))"
  then have "on_exception retries is_final (watch_control_stream_body l) (w, q) = (raised, (w', q'))"
    by (simp add: watch_control_stream_def)
  from on_exception_terminated [OF assms this]
  show "\<exists>new. Ev_terminated \<notin> set new
          \<and> (q' = q @ new \<or> (q' = q @ new @ [Ev_terminated] \<and> raised = None))" .
next
  fix w q response w1 q1
  assume "get_event_stream l w = (Inr response, w1) \<and> forward (lines response) q = (None, q1)"
  with body_cases [of l w response w1 q q1]
  show "watch_control_stream_body l (w, q)
          = (case ending response of
               None \<Rightarrow> (None, (w1, q1))
             | Some e \<Rightarrow> if is_connection_error e then (None, (w1, q1 @ [Ev_terminated]))
                         else (Some e, (w1, q1)))"
    by blast
next
  fix w q response w1 e q1
  assume "get_event_stream l w = (Inr response, w1) \<and> forward (lines response) q = (Some e, q1)"
  with body_cases [of l w response w1 q q1 e]
  show "watch_control_stream_body l (w, q) = (Some ValueError, (w1, q1))"
    by blast
next
  fix w q e w1
  assume "get_event_stream l w = (Inl e, w1)"
  with body_cases [of l w _ w1 q _ e]
  show "watch_control_stream_body l (w, q) = (Some e, (w1, q))"
    by blast
next
  fix n deps gid user_profile config w q raised w' q'
  assume "play_game n deps gid user_profile config (w, q) = (raised, (w', q'))"
  then have "on_exception n is_final (play_game_body deps gid user_profile config) (w, q)
               = (raised, (w', q'))"
    by (simp add: play_game_def)
  from play_game_puts [OF this] show "\<exists>k. q' = q @ replicate k Ev_local_game_done" .
qed

theorem terminated_only_on_connection_error_witness:
  "(\<forall>w. case get_event_stream demo_li w of
          (Inr response, w1) \<Rightarrow> Line Ev_terminated \<notin> set (lines response)
        | (Inl e, w1) \<Rightarrow> True)
   \<and> get_event_stream demo_li 1
       = (Inr \<lparr>status_code = JInt 200, lines = [Line (Ev_gameStart ''g1''), Blank],
               ending = Some ChunkedEncodingError\<rparr>, 1)
   \<and> forward [Line (Ev_gameStart ''g1''), Blank] [] = (None, [Ev_gameStart ''g1'', Ev_ping])
   \<and> watch_control_stream_body demo_li (1, [])
       = (None, (1, [Ev_gameStart ''g1'', Ev_ping] @ [Ev_terminated]))
   \<and> watch_control_stream 3 demo_li (1, [])
       = (None, (1, [Ev_gameStart ''g1'', Ev_ping] @ [Ev_terminated]))"
proof -
  have clean: "\<forall>w. case get_event_stream demo_li w of
          (Inr response, w1) \<Rightarrow> Line Ev_terminated \<notin> set (lines response)
        | (Inl e, w1) \<Rightarrow> True"
    by (simp add: demo_li_def demo_event_stream_def)
  have open1: "get_event_stream demo_li 1
       = (Inr \<lparr>status_code = JInt 200, lines = [Line (Ev_gameStart ''g1''), Blank],
               ending = Some ChunkedEncodingError\<rparr>, 1)"
    by (simp add: demo_li_def demo_event_stream_def)
  have fw: "forward [Line (Ev_gameStart ''g1''), Blank] [] = (None, [Ev_gameStart ''g1'', Ev_ping])"
    by simp
  note t = terminated_only_on_connection_error [OF clean, of 3]
  from t [THEN conjunct2, THEN conjunct1, rule_format,
      of 1 "\<lparr>status_code = JInt 200, lines = [Line (Ev_gameStart ''g1''), Blank],
               ending = Some ChunkedEncodingError\<rparr>" 1 "[]" "[Ev_gameStart ''g1'', Ev_ping]"]
    open1 fw
  have body: "watch_control_stream_body demo_li (1, [])
       = (None, (1, [Ev_gameStart ''g1'', Ev_ping] @ [Ev_terminated]))"
    by simp
  have run: "watch_control_stream 3 demo_li (1, [])
       = (None, (1, [Ev_gameStart ''g1'', Ev_ping] @ [Ev_terminated]))"
    by code_simp
  from clean open1 fw body run show ?thesis by (intro conjI)
qed

theorem terminated_only_on_connection_error_counterexample:
  "get_event_stream demo_li 0
       = (Inr \<lparr>status_code = JInt 200, lines = [Line (Ev_gameStart ''g1''), Blank],
               ending = None\<rparr>, 0)
   \<and> watch_control_stream 3 demo_li (0, []) = (None, (0, [Ev_gameStart ''g1'', Ev_ping]))
   \<and> Ev_terminated \<notin> set [Ev_gameStart ''g1'', Ev_ping]
   \<and> get_event_stream demo_li 2 = (Inl (HTTPError 401), 2)
   \<and> is_final (HTTPError 401)
   \<and> watch_control_stream 3 demo_li (2, []) = (Some (HTTPError 401), (2, []))"
  by (simp add: watch_control_stream_def watch_control_stream_body_def demo_li_def
        demo_event_stream_def numeral_3_eq_3)

end
